theory Spec2Isabelle
  imports Main "HOL-Library.Word" "HOL-Library.AList"
begin

section \<open>JavaScript values\<close>

text \<open>
  A JavaScript string is a sequence of UTF-16 code units: \<open>length\<close>, \<open>substring\<close> and
  the regular expressions of \<open>index.js\<close> all count and match code units.
  \<open>u16\<close> gives the code units of an ASCII literal of the source.
\<close>

type_synonym js_string = "16 word list"

definition u16 :: "string \<Rightarrow> js_string" where
  "u16 s = map (\<lambda>c. of_nat (of_char c)) s"

text \<open>
  The values a handler can receive as \<open>data\<close> (what socket.io decodes from the wire) and
  the values it emits. \<open>JSNumber\<close> carries the integral numbers the server produces
  (timestamps, counts); the server never inspects a number it receives.
\<close>

datatype js_value =
    JSUndefined
  | JSNull
  | JSBoolean bool
  | JSNumber int
  | JSString js_string
  | JSArray "js_value list"
  | JSObject "(js_string \<times> js_value) list"

datatype js_error = TypeError

text \<open>
  Property access \<open>data.name\<close>: a TypeError on \<open>undefined\<close> and \<open>null\<close>, the
  property's value on an object, \<open>undefined\<close> when the object does not have it. The
  handlers read only \<open>username\<close>, \<open>room\<close>, \<open>message\<close>, \<open>targetSocketId\<close> and
  \<open>isTyping\<close>, which no primitive or array has.
\<close>

fun get_prop :: "js_value \<Rightarrow> js_string \<Rightarrow> js_error + js_value" where
  "get_prop JSUndefined k = Inl TypeError"
| "get_prop JSNull k = Inl TypeError"
| "get_prop (JSObject props) k =
     Inr (case map_of props k of None \<Rightarrow> JSUndefined | Some v \<Rightarrow> v)"
| "get_prop (JSBoolean b) k = Inr JSUndefined"
| "get_prop (JSNumber n) k = Inr JSUndefined"
| "get_prop (JSString s) k = Inr JSUndefined"
| "get_prop (JSArray vs) k = Inr JSUndefined"

section \<open>Utility functions of index.js\<close>

subsection \<open>sanitizeInput\<close>

text \<open>
  \<open>text.replace(/c/g, r)\<close> for a one-character pattern \<open>c\<close>: every occurrence of the
  code unit is replaced by \<open>r\<close>, left to right (none of the replacement texts of
  \<open>sanitizeInput\<close> contains a \<open>$\<close> pattern).
\<close>

fun replace_all :: "16 word \<Rightarrow> js_string \<Rightarrow> js_string \<Rightarrow> js_string" where
  "replace_all c r [] = []"
| "replace_all c r (x # xs) =
     (if x = c then r @ replace_all c r xs else x # replace_all c r xs)"

text \<open>
  \<open>String.prototype.trim\<close> removes the code units of ECMAScript's WhiteSpace and
  LineTerminator productions from both ends.
\<close>

definition is_js_whitespace :: "16 word \<Rightarrow> bool" where
  "is_js_whitespace c =
     (c = 0x0009 \<or> c = 0x000A \<or> c = 0x000B \<or> c = 0x000C \<or> c = 0x000D \<or> c = 0x0020
      \<or> c = 0x00A0 \<or> c = 0x1680 \<or> (0x2000 \<le> c \<and> c \<le> 0x200A) \<or> c = 0x2028
      \<or> c = 0x2029 \<or> c = 0x202F \<or> c = 0x205F \<or> c = 0x3000 \<or> c = 0xFEFF)"

definition trim :: "js_string \<Rightarrow> js_string" where
  "trim s = rev (dropWhile is_js_whitespace (rev (dropWhile is_js_whitespace s)))"

definition sanitizeInput :: "js_value \<Rightarrow> js_string" where
  "sanitizeInput text =
     (case text of
        JSString s \<Rightarrow>
          take 500
            (trim
              (replace_all 0x2F (u16 ''&#x2F;'')
                (replace_all 0x27 (u16 ''&#x27;'')
                  (replace_all 0x22 (u16 ''&quot;'')
                    (replace_all 0x3E (u16 ''&gt;'')
                      (replace_all 0x3C (u16 ''&lt;'')
                        (replace_all 0x26 (u16 ''&amp;'') s)))))))
      | _ \<Rightarrow> [])"

text \<open>
  The sanitizer as the specification words it: each of the six characters replaced by
  its character reference, then trimmed, then cut to 500 code units; the empty text for
  an input that is not text.
\<close>

definition char_reference :: "16 word \<Rightarrow> js_string" where
  "char_reference c =
     (if c = 0x26 then u16 ''&amp;''
      else if c = 0x3C then u16 ''&lt;''
      else if c = 0x3E then u16 ''&gt;''
      else if c = 0x22 then u16 ''&quot;''
      else if c = 0x27 then u16 ''&#x27;''
      else if c = 0x2F then u16 ''&#x2F;''
      else [c])"

definition sanitize_spec :: "js_value \<Rightarrow> js_string" where
  "sanitize_spec v =
     (case v of
        JSString s \<Rightarrow> take 500 (trim (concat (map char_reference s)))
      | _ \<Rightarrow> [])"

subsection \<open>Server state\<close>

text \<open>
  The three global maps of \<open>index.js\<close>. \<open>users\<close> is iterated by \<open>getUsersInRoom\<close>,
  \<open>isUsernameAvailable\<close> and \<open>get_rooms\<close>, so it keeps the insertion order of a
  JavaScript \<open>Map\<close>: \<open>set\<close> on a present key replaces the value in place, on a new
  key appends, which is \<open>AList.update\<close>. The other two maps are only looked up.
\<close>

type_synonym sid = js_string

record user =
  username :: js_string
  room :: js_string
  socketId :: sid

type_synonym history_map = "js_string \<rightharpoonup> js_value list"
type_synonym rate_map = "sid \<rightharpoonup> int list"

record server =
  users :: "(sid \<times> user) list"
  messageHistory :: history_map
  rateLimitMap :: rate_map

definition init :: server where
  "init = \<lparr>users = [], messageHistory = Map.empty, rateLimitMap = Map.empty\<rparr>"

definition RATE_LIMIT_MAX :: nat where
  "RATE_LIMIT_MAX = 10"

definition RATE_LIMIT_WINDOW :: int where
  "RATE_LIMIT_WINDOW = 10000"

subsection \<open>Rate limiting\<close>

text \<open>
  \<open>now\<close> is the value \<open>Date.now()\<close> returns inside the function: a whole number of
  milliseconds, far below \<open>2 ^ 53\<close>, so the subtraction is exact.
\<close>

definition isRateLimited :: "sid \<Rightarrow> int \<Rightarrow> rate_map \<Rightarrow> bool \<times> rate_map" where
  "isRateLimited sock now rl =
     (let timestamps = (case rl sock of None \<Rightarrow> [] | Some ts \<Rightarrow> ts);
          recentTimestamps = filter (\<lambda>time. now - time < RATE_LIMIT_WINDOW) timestamps
      in (RATE_LIMIT_MAX \<le> length recentTimestamps, rl(sock \<mapsto> recentTimestamps)))"

definition addRateLimitTimestamp :: "sid \<Rightarrow> int \<Rightarrow> rate_map \<Rightarrow> rate_map" where
  "addRateLimitTimestamp sock now rl =
     (let timestamps = (case rl sock of None \<Rightarrow> [] | Some ts \<Rightarrow> ts)
      in rl(sock \<mapsto> timestamps @ [now]))"

subsection \<open>Presence\<close>

definition getUsersInRoom :: "js_string \<Rightarrow> (sid \<times> user) list \<Rightarrow> js_value list" where
  "getUsersInRoom rm us =
     map (\<lambda>(sock, u). JSObject [(u16 ''username'', JSString (username u)),
                                 (u16 ''socketId'', JSString sock)])
       (filter (\<lambda>(sock, u). room u = rm) us)"

definition isUsernameAvailable :: "js_string \<Rightarrow> js_string \<Rightarrow> (sid \<times> user) list \<Rightarrow> bool" where
  "isUsernameAvailable name rm us =
     (\<not> list_ex (\<lambda>(sock, u). username u = name \<and> room u = rm) us)"

subsection \<open>Message history\<close>

definition addMessageToHistory :: "js_string \<Rightarrow> js_value \<Rightarrow> history_map \<Rightarrow> history_map" where
  "addMessageToHistory rm message mh =
     (let history = (case mh rm of None \<Rightarrow> [] | Some h \<Rightarrow> h);
          history1 = (if 100 \<le> length history then tl history else history)
      in mh(rm \<mapsto> history1 @ [message]))"

definition getMessageHistory :: "js_string \<Rightarrow> history_map \<Rightarrow> js_value list" where
  "getMessageHistory rm mh = (case mh rm of None \<Rightarrow> [] | Some h \<Rightarrow> h)"

section \<open>Socket.io handlers\<close>

text \<open>
  What a handler does to the transport, in the order of its calls: \<open>socket.join\<close>,
  \<open>socket.leave\<close>, and the three ways of emitting (\<open>socket.emit\<close> to the handling
  socket, \<open>io.to(room).emit\<close> to a channel, \<open>socket.to(room).emit\<close> to a channel
  without the handling socket). \<open>console.log\<close> and \<open>console.error\<close> are left out.
\<close>

datatype target = ToSocket sid | ToRoom js_string | ToRoomExcept js_string sid

datatype action =
    SocketJoin sid js_string
  | SocketLeave sid js_string
  | Emit target string js_value

text \<open>
  \<open>clk i\<close> is what the handler's call number \<open>i\<close> of \<open>Date.now()\<close> returns, counted
  from 0 in the order the handler makes them.
\<close>

type_synonym clock = "nat \<Rightarrow> int"

definition error_payload :: "js_string \<Rightarrow> js_value" where
  "error_payload text = JSObject [(u16 ''message'', JSString text)]"

definition emit_error :: "sid \<Rightarrow> js_string \<Rightarrow> action" where
  "emit_error sock text = Emit (ToSocket sock) ''error'' (error_payload text)"

definition or_general :: "js_string \<Rightarrow> js_string" where
  "or_general rm = (if rm = [] then u16 ''general'' else rm)"

definition system_message :: "js_string \<Rightarrow> int \<Rightarrow> js_string \<Rightarrow> js_value" where
  "system_message text ts rm =
     JSObject [(u16 ''type'', JSString (u16 ''system'')),
               (u16 ''message'', JSString text),
               (u16 ''timestamp'', JSNumber ts),
               (u16 ''room'', JSString rm)]"

subsection \<open>join\<close>

definition short_username_text :: js_string where
  "short_username_text =
     u16 ''Le nom d'utilisateur doit contenir au moins 2 caract'' @ [0xE8] @ u16 ''res''"

definition username_taken_text :: js_string where
  "username_taken_text =
     u16 ''Ce nom d'utilisateur est d'' @ [0xE9] @ u16 ''j'' @ [0xE0]
       @ u16 '' pris dans cette salle''"

definition join :: "sid \<Rightarrow> js_value \<Rightarrow> clock \<Rightarrow> server \<Rightarrow> server \<times> action list" where
  "join sock data clk s =
     (case get_prop data (u16 ''username'') of
        Inl err \<Rightarrow> (s, [emit_error sock (u16 ''Erreur lors de la connexion au chat'')])
      | Inr raw_username \<Rightarrow>
     (case get_prop data (u16 ''room'') of
        Inl err \<Rightarrow> (s, [emit_error sock (u16 ''Erreur lors de la connexion au chat'')])
      | Inr raw_room \<Rightarrow>
        let name = sanitizeInput raw_username;
            rm = or_general (sanitizeInput raw_room)
        in
          if name = [] \<or> length name < 2 then
            (s, [emit_error sock short_username_text])
          else if \<not> isUsernameAvailable name rm (users s) then
            (s, [emit_error sock username_taken_text])
          else
            let s1 = s\<lparr>users :=
                       AList.update sock \<lparr>username = name, room = rm, socketId = sock\<rparr>
                         (users s)\<rparr>;
                history = getMessageHistory rm (messageHistory s1);
                joinMessage = system_message (name @ u16 '' a rejoint le chat'') (clk 0) rm;
                usersInRoom = getUsersInRoom rm (users s1)
            in (s1,
                [SocketJoin sock rm,
                 Emit (ToSocket sock) ''message_history'' (JSArray history),
                 Emit (ToRoom rm) ''user_joined'' joinMessage,
                 Emit (ToRoom rm) ''users_list'' (JSArray usersInRoom),
                 Emit (ToSocket sock) ''join_success''
                   (JSObject [(u16 ''username'', JSString name),
                              (u16 ''room'', JSString rm),
                              (u16 ''usersCount'', JSNumber (int (length usersInRoom)))])])))"

subsection \<open>chat_message\<close>

definition user_message :: "user \<Rightarrow> js_string \<Rightarrow> int \<Rightarrow> sid \<Rightarrow> js_value" where
  "user_message u message ts sock =
     JSObject [(u16 ''type'', JSString (u16 ''user'')),
               (u16 ''username'', JSString (username u)),
               (u16 ''message'', JSString message),
               (u16 ''timestamp'', JSNumber ts),
               (u16 ''room'', JSString (room u)),
               (u16 ''socketId'', JSString sock)]"

definition chat_message :: "sid \<Rightarrow> js_value \<Rightarrow> clock \<Rightarrow> server \<Rightarrow> server \<times> action list" where
  "chat_message sock data clk s =
     (case map_of (users s) sock of
        None \<Rightarrow> (s, [emit_error sock (u16 ''Vous devez d'abord rejoindre un salon'')])
      | Some u \<Rightarrow>
        let (limited, rl1) = isRateLimited sock (clk 0) (rateLimitMap s);
            s1 = s\<lparr>rateLimitMap := rl1\<rparr>
        in
          if limited then
            (s1, [emit_error sock
                   (u16 ''Vous envoyez trop de messages. Veuillez patienter.'')])
          else
            (case get_prop data (u16 ''message'') of
               Inl err \<Rightarrow> (s1, [emit_error sock (u16 ''Erreur lors de l'envoi du message'')])
             | Inr raw_message \<Rightarrow>
               let message = sanitizeInput raw_message in
                 if message = [] \<or> length message = 0 then (s1, [])
                 else
                   let s2 = s1\<lparr>rateLimitMap :=
                               addRateLimitTimestamp sock (clk 1) (rateLimitMap s1)\<rparr>;
                       messageObject = user_message u message (clk 2) sock;
                       s3 = s2\<lparr>messageHistory :=
                               addMessageToHistory (room u) messageObject (messageHistory s2)\<rparr>
                   in (s3, [Emit (ToRoom (room u)) ''received_message'' messageObject])))"

subsection \<open>private_message\<close>

text \<open>
  The keys of \<open>users\<close> are socket ids, which are strings: \<open>users.get\<close> finds nothing
  for a \<open>targetSocketId\<close> that is not a string.
\<close>

definition lookup_target :: "js_value \<Rightarrow> (sid \<times> user) list \<Rightarrow> (sid \<times> user) option" where
  "lookup_target targetSocketId us =
     (case targetSocketId of
        JSString t \<Rightarrow> (case map_of us t of None \<Rightarrow> None | Some u \<Rightarrow> Some (t, u))
      | _ \<Rightarrow> None)"

definition private_message :: "sid \<Rightarrow> js_value \<Rightarrow> clock \<Rightarrow> server \<Rightarrow> server \<times> action list" where
  "private_message sock data clk s =
     (case map_of (users s) sock of
        None \<Rightarrow> (s, [emit_error sock (u16 ''Vous devez d'abord rejoindre un salon'')])
      | Some sender \<Rightarrow>
     (case get_prop data (u16 ''message'') of
        Inl err \<Rightarrow>
          (s, [emit_error sock (u16 ''Erreur lors de l'envoi du message priv'' @ [0xE9])])
      | Inr raw_message \<Rightarrow>
     (case get_prop data (u16 ''targetSocketId'') of
        Inl err \<Rightarrow>
          (s, [emit_error sock (u16 ''Erreur lors de l'envoi du message priv'' @ [0xE9])])
      | Inr targetSocketId \<Rightarrow>
        let message = sanitizeInput raw_message in
     (case lookup_target targetSocketId (users s) of
        None \<Rightarrow> (s, [emit_error sock (u16 ''Destinataire introuvable'')])
      | Some (target, recipient) \<Rightarrow>
        let (limited, rl1) = isRateLimited sock (clk 0) (rateLimitMap s);
            s1 = s\<lparr>rateLimitMap := rl1\<rparr>
        in
          if limited then
            (s1, [emit_error sock
                   (u16 ''Vous envoyez trop de messages. Veuillez patienter.'')])
          else
            let s2 = s1\<lparr>rateLimitMap :=
                        addRateLimitTimestamp sock (clk 1) (rateLimitMap s1)\<rparr>;
                privateMessage =
                  JSObject [(u16 ''type'', JSString (u16 ''private'')),
                            (u16 ''from'', JSString (username sender)),
                            (u16 ''to'', JSString (username recipient)),
                            (u16 ''message'', JSString message),
                            (u16 ''timestamp'', JSNumber (clk 2)),
                            (u16 ''fromSocketId'', JSString sock),
                            (u16 ''toSocketId'', JSString target)]
            in (s2,
                [Emit (ToRoom target) ''private_message_received'' privateMessage,
                 Emit (ToSocket sock) ''private_message_sent'' privateMessage])))))"

subsection \<open>typing\<close>

text \<open>
  This handler has no \<open>try\<close>: reading \<open>data.isTyping\<close> of an \<open>undefined\<close> or \<open>null\<close>
  payload throws out of the listener.
\<close>

definition typing :: "sid \<Rightarrow> js_value \<Rightarrow> server \<Rightarrow> js_error + (server \<times> action list)" where
  "typing sock data s =
     (case map_of (users s) sock of
        None \<Rightarrow> Inr (s, [])
      | Some u \<Rightarrow>
        (case get_prop data (u16 ''isTyping'') of
           Inl err \<Rightarrow> Inl err
         | Inr isTyping \<Rightarrow>
             Inr (s, [Emit (ToRoomExcept (room u) sock) ''user_typing''
                        (JSObject [(u16 ''username'', JSString (username u)),
                                   (u16 ''isTyping'', isTyping)])])))"

subsection \<open>change_room\<close>

text \<open>
  The user list sent to the old room is computed before \<open>user.room\<close> is assigned, the
  one sent to the new room after.
\<close>

definition change_room :: "sid \<Rightarrow> js_value \<Rightarrow> clock \<Rightarrow> server \<Rightarrow> server \<times> action list" where
  "change_room sock data clk s =
     (case map_of (users s) sock of
        None \<Rightarrow> (s, [])
      | Some u \<Rightarrow>
     (case get_prop data (u16 ''room'') of
        Inl err \<Rightarrow> (s, [emit_error sock (u16 ''Erreur lors du changement de salle'')])
      | Inr raw_room \<Rightarrow>
        let newRoom = or_general (sanitizeInput raw_room);
            oldRoom = room u
        in
          if oldRoom = newRoom then (s, [])
          else
            let usersInOldRoom = getUsersInRoom oldRoom (users s);
                s1 = s\<lparr>users := AList.update sock (u\<lparr>room := newRoom\<rparr>) (users s)\<rparr>;
                usersInRoom = getUsersInRoom newRoom (users s1)
            in (s1,
                [SocketLeave sock oldRoom,
                 Emit (ToRoom oldRoom) ''user_left''
                   (system_message (username u @ u16 '' a quitt'' @ [0xE9] @ u16 '' la salle'')
                      (clk 0) oldRoom),
                 Emit (ToRoom oldRoom) ''users_list'' (JSArray usersInOldRoom),
                 SocketJoin sock newRoom,
                 Emit (ToSocket sock) ''message_history''
                   (JSArray (getMessageHistory newRoom (messageHistory s1))),
                 Emit (ToRoom newRoom) ''user_joined''
                   (system_message (username u @ u16 '' a rejoint la salle'') (clk 1) newRoom),
                 Emit (ToRoom newRoom) ''users_list'' (JSArray usersInRoom),
                 Emit (ToSocket sock) ''room_changed''
                   (JSObject [(u16 ''room'', JSString newRoom),
                              (u16 ''usersCount'', JSNumber (int (length usersInRoom)))])])))"

subsection \<open>disconnect\<close>

definition disconnect :: "sid \<Rightarrow> clock \<Rightarrow> server \<Rightarrow> server \<times> action list" where
  "disconnect sock clk s =
     (case map_of (users s) sock of
        Some u \<Rightarrow>
          let s1 = s\<lparr>users := AList.delete sock (users s)\<rparr>;
              usersInRoom = getUsersInRoom (room u) (users s1)
          in (s1\<lparr>rateLimitMap := (rateLimitMap s1)(sock := None)\<rparr>,
              [Emit (ToRoom (room u)) ''user_left''
                 (system_message (username u @ u16 '' a quitt'' @ [0xE9] @ u16 '' le chat'')
                    (clk 0) (room u)),
               Emit (ToRoom (room u)) ''users_list'' (JSArray usersInRoom)])
      | None \<Rightarrow> (s\<lparr>rateLimitMap := (rateLimitMap s)(sock := None)\<rparr>, []))"

subsection \<open>get_users and get_rooms\<close>

definition get_users :: "sid \<Rightarrow> server \<Rightarrow> server \<times> action list" where
  "get_users sock s =
     (case map_of (users s) sock of
        Some u \<Rightarrow>
          (s, [Emit (ToSocket sock) ''users_list''
                 (JSArray (getUsersInRoom (room u) (users s)))])
      | None \<Rightarrow> (s, []))"

definition count_rooms :: "(sid \<times> user) list \<Rightarrow> (js_string \<times> nat) list" where
  "count_rooms us =
     foldl (\<lambda>rooms (sock, u).
              let rooms1 = (if map_of rooms (room u) = None
                            then AList.update (room u) 0 rooms else rooms)
              in AList.update (room u)
                   ((case map_of rooms1 (room u) of None \<Rightarrow> 0 | Some n \<Rightarrow> n) + 1) rooms1)
       [] us"

definition get_rooms :: "sid \<Rightarrow> server \<Rightarrow> server \<times> action list" where
  "get_rooms sock s =
     (s, [Emit (ToSocket sock) ''rooms_list''
            (JSArray (map (\<lambda>(name, n). JSObject [(u16 ''name'', JSString name),
                                                  (u16 ''usersCount'', JSNumber (int n))])
                        (count_rooms (users s))))])"

subsection \<open>The server as a transition system\<close>

datatype event =
    Join sid js_value clock
  | ChatMessage sid js_value clock
  | PrivateMessage sid js_value clock
  | Typing sid js_value
  | ChangeRoom sid js_value clock
  | Disconnect sid clock
  | GetUsers sid
  | GetRooms sid

text \<open>
  One event handled to completion. \<open>Inl\<close> is an exception that leaves the listener
  uncaught, which ends the process.
\<close>

fun step :: "event \<Rightarrow> server \<Rightarrow> js_error + (server \<times> action list)" where
  "step (Join sock data clk) s = Inr (join sock data clk s)"
| "step (ChatMessage sock data clk) s = Inr (chat_message sock data clk s)"
| "step (PrivateMessage sock data clk) s = Inr (private_message sock data clk s)"
| "step (Typing sock data) s = typing sock data s"
| "step (ChangeRoom sock data clk) s = Inr (change_room sock data clk s)"
| "step (Disconnect sock clk) s = Inr (disconnect sock clk s)"
| "step (GetUsers sock) s = Inr (get_users sock s)"
| "step (GetRooms sock) s = Inr (get_rooms sock s)"

fun run :: "event list \<Rightarrow> server \<Rightarrow> js_error + (server \<times> action list)" where
  "run [] s = Inr (s, [])"
| "run (e # es) s =
     (case step e s of
        Inl err \<Rightarrow> Inl err
      | Inr (s1, out1) \<Rightarrow>
          (case run es s1 of
             Inl err \<Rightarrow> Inl err
           | Inr (s2, out2) \<Rightarrow> Inr (s2, out1 @ out2)))"

subsection \<open>Reading the emitted user lists\<close>

text \<open>Whether a user list, as \<open>getUsersInRoom\<close> builds it, has an entry of the socket.\<close>

definition listed_in :: "sid \<Rightarrow> js_value list \<Rightarrow> bool" where
  "listed_in sock entries =
     list_ex (\<lambda>v. get_prop v (u16 ''socketId'') = Inr (JSString sock)) entries"

subsection \<open>Reading actions, events and stored messages\<close>



fun emits_event :: "string \<Rightarrow> action \<Rightarrow> bool" where
  "emits_event name (Emit t ev v) = (ev = name)"
| "emits_event name (SocketJoin sock r) = False"
| "emits_event name (SocketLeave sock r) = False"

text \<open>A stored or emitted message whose \<open>type\<close> property is the string \<open>user\<close>.\<close>

definition is_user_message :: "js_value \<Rightarrow> bool" where
  "is_user_message m = (get_prop m (u16 ''type'') = Inr (JSString (u16 ''user'')))"

fun is_chat_message :: "event \<Rightarrow> bool" where
  "is_chat_message (ChatMessage sock data clk) = True"
| "is_chat_message (Join sock data clk) = False"
| "is_chat_message (PrivateMessage sock data clk) = False"
| "is_chat_message (Typing sock data) = False"
| "is_chat_message (ChangeRoom sock data clk) = False"
| "is_chat_message (Disconnect sock clk) = False"
| "is_chat_message (GetUsers sock) = False"
| "is_chat_message (GetRooms sock) = False"

text \<open>
  Whether an action broadcasts a chat message to a room (\<open>chat_message\<close> does so right
  after storing the message in that room's history), and how many chat messages a run
  of events, started in a state, broadcasts to a room.
\<close>

fun is_broadcast_to :: "js_string \<Rightarrow> action \<Rightarrow> bool" where
  "is_broadcast_to rm (Emit (ToRoom r) ev v) = (r = rm \<and> ev = ''received_message'')"
| "is_broadcast_to rm (Emit (ToSocket sock) ev v) = False"
| "is_broadcast_to rm (Emit (ToRoomExcept r sock) ev v) = False"
| "is_broadcast_to rm (SocketJoin sock r) = False"
| "is_broadcast_to rm (SocketLeave sock r) = False"

fun messages_to :: "js_string \<Rightarrow> event list \<Rightarrow> server \<Rightarrow> nat" where
  "messages_to rm [] s = 0"
| "messages_to rm (e # es) s =
     (case step e s of
        Inl err \<Rightarrow> 0
      | Inr (s1, out) \<Rightarrow> length (filter (is_broadcast_to rm) out) + messages_to rm es s1)"

fun is_change_room :: "event \<Rightarrow> bool" where
  "is_change_room (ChangeRoom sock data clk) = True"
| "is_change_room (Join sock data clk) = False"
| "is_change_room (ChatMessage sock data clk) = False"
| "is_change_room (PrivateMessage sock data clk) = False"
| "is_change_room (Typing sock data) = False"
| "is_change_room (Disconnect sock clk) = False"
| "is_change_room (GetUsers sock) = False"
| "is_change_room (GetRooms sock) = False"

text \<open>No two entries of the presence registry have the same username and the same room.\<close>

definition unique_usernames :: "server \<Rightarrow> bool" where
  "unique_usernames s = distinct (map (\<lambda>(sock, u). (username u, room u)) (users s))"

subsection \<open>A sample state\<close>

text \<open>
  Connection \<open>[1]\<close> has joined room \<open>tech\<close> as \<open>alice\<close> and has two recorded message
  attempts, at 0 ms and 5000 ms.
\<close>

definition alice_in_tech :: server where
  "alice_in_tech =
     \<lparr>users = [([1], \<lparr>username = u16 ''alice'', room = u16 ''tech'', socketId = [1]\<rparr>)],
      messageHistory = Map.empty,
      rateLimitMap = Map.empty([1] \<mapsto> [0, 5000])\<rparr>"

text \<open>The user of that connection, and payloads as a client sends them.\<close>

definition join_data :: "string \<Rightarrow> string \<Rightarrow> js_value" where
  "join_data name rm =
     JSObject [(u16 ''username'', JSString (u16 name)), (u16 ''room'', JSString (u16 rm))]"

definition room_data :: "string \<Rightarrow> js_value" where
  "room_data rm = JSObject [(u16 ''room'', JSString (u16 rm))]"

definition message_data :: "string \<Rightarrow> js_value" where
  "message_data text = JSObject [(u16 ''message'', JSString (u16 text))]"

definition alice :: user where
  "alice = \<lparr>username = u16 ''alice'', room = u16 ''tech'', socketId = [1]\<rparr>"

text \<open>
  Message number \<open>n\<close> of a series that connection \<open>[1]\<close> sends 20 seconds apart, and
  the message object the server builds from it.
\<close>

definition later_chat :: "nat \<Rightarrow> event" where
  "later_chat n = ChatMessage [1] (message_data ''b'') (\<lambda>i. 20000 * int n)"

definition later_message :: "nat \<Rightarrow> js_value" where
  "later_message n = user_message alice (u16 ''b'') (20000 * int n) [1]"

section \<open>Sequences of calls\<close>

subsection \<open>Appending to the history store\<close>

text \<open>
  A sequence of \<open>addMessageToHistory(room, message)\<close> calls, in order, and the messages
  among them that went to one room. \<open>last_n n xs\<close> is the last \<open>n\<close> elements of \<open>xs\<close>
  (all of them when there are fewer).
\<close>

fun appends :: "(js_string \<times> js_value) list \<Rightarrow> history_map \<Rightarrow> history_map" where
  "appends [] mh = mh"
| "appends ((rm, message) # rest) mh = appends rest (addMessageToHistory rm message mh)"

definition appended_to :: "js_string \<Rightarrow> (js_string \<times> js_value) list \<Rightarrow> js_value list" where
  "appended_to rm apps = map snd (filter (\<lambda>(r, m). r = rm) apps)"

definition last_n :: "nat \<Rightarrow> 'a list \<Rightarrow> 'a list" where
  "last_n n xs = drop (length xs - n) xs"

subsection \<open>Checking and recording message attempts\<close>

text \<open>
  One attempt of a connection, as the message handlers make it: \<open>isRateLimited\<close> at
  clock reading \<open>t_check\<close> and, when it answers false, \<open>addRateLimitTimestamp\<close> at
  clock reading \<open>t_record\<close>. The second component collects the admitted attempts.
\<close>

definition attempt ::
  "sid \<Rightarrow> rate_map \<times> (int \<times> int) list \<Rightarrow> int \<times> int \<Rightarrow> rate_map \<times> (int \<times> int) list" where
  "attempt sock st readings =
     (case st of (rl, admitted) \<Rightarrow>
      case readings of (t_check, t_record) \<Rightarrow>
        (case isRateLimited sock t_check rl of
           (True, rl1) \<Rightarrow> (rl1, admitted)
         | (False, rl1) \<Rightarrow>
             (addRateLimitTimestamp sock t_record rl1, admitted @ [(t_check, t_record)])))"

definition attempts ::
  "sid \<Rightarrow> (int \<times> int) list \<Rightarrow> rate_map \<Rightarrow> rate_map \<times> (int \<times> int) list" where
  "attempts sock es rl = foldl (attempt sock) (rl, []) es"

text \<open>The clock never runs backwards over the readings of a sequence of attempts.\<close>

definition clock_readings :: "(int \<times> int) list \<Rightarrow> int list" where
  "clock_readings es = concat (map (\<lambda>(t_check, t_record). [t_check, t_record]) es)"

definition chronological :: "(int \<times> int) list \<Rightarrow> bool" where
  "chronological es = sorted (clock_readings es)"

text \<open>The admitted attempts checked in the window of 10,000 ms that starts at \<open>w\<close>.\<close>

definition admitted_in_window :: "int \<Rightarrow> (int \<times> int) list \<Rightarrow> nat" where
  "admitted_in_window w admitted =
     length (filter (\<lambda>(t_check, t_record). w \<le> t_check \<and> t_check < w + RATE_LIMIT_WINDOW)
               admitted)"

subsection \<open>Auxiliary notions of the proofs\<close>

definition stored :: "rate_map \<Rightarrow> sid \<Rightarrow> int list" where
  "stored rl sock = (case rl sock of None \<Rightarrow> [] | Some ts \<Rightarrow> ts)"

definition young :: "int \<Rightarrow> int \<Rightarrow> bool" where
  "young x t = (x - t < 10000)"

text \<open>
  What holds after a chronological sequence of attempts: every admitted attempt was
  recorded no earlier than checked; the stored window still holds every recorded
  timestamp that a later check can find young; no window has more than 10 admissions.
\<close>

definition rl_inv :: "sid \<Rightarrow> (int \<times> int) list \<Rightarrow> rate_map \<times> (int \<times> int) list \<Rightarrow> bool" where
  "rl_inv sock es st =
     (case st of (rl, adm) \<Rightarrow>
        (\<forall>(c, r) \<in> set adm. c \<le> r \<and> r \<in> set (clock_readings es))
      \<and> (\<forall>x. (\<forall>t \<in> set (clock_readings es). t \<le> x) \<longrightarrow>
             length (filter (\<lambda>(c, r). young x r) adm)
               \<le> length (filter (young x) (stored rl sock)))
      \<and> (\<forall>w. admitted_in_window w adm \<le> 10))"

section \<open>The sanitizer\<close>

lemma replace_all_append:
  "replace_all c r (xs @ ys) = replace_all c r xs @ replace_all c r ys"
  by (induction xs) simp_all

lemma escape_chain_concat:
  "replace_all 0x2F (u16 ''&#x2F;'')
     (replace_all 0x27 (u16 ''&#x27;'')
       (replace_all 0x22 (u16 ''&quot;'')
         (replace_all 0x3E (u16 ''&gt;'')
           (replace_all 0x3C (u16 ''&lt;'')
             (replace_all 0x26 (u16 ''&amp;'') s)))))
   = concat (map char_reference s)"
  by (induction s) (simp_all add: char_reference_def u16_def replace_all_append)

text \<open>
  C4: \<open>sanitizeInput\<close> is total, returns the empty text for every value that is not a
  string, and on a string returns the text with each of the six characters replaced by
  its character reference, trimmed, and cut to its first 500 code units; the result
  never has more than 500 code units.
\<close>

theorem sanitizeInput_meets_spec:
  "sanitizeInput v = sanitize_spec v
   \<and> length (sanitizeInput v) \<le> 500
   \<and> sanitizeInput JSUndefined = [] \<and> sanitizeInput JSNull = []
   \<and> sanitizeInput (JSBoolean b) = [] \<and> sanitizeInput (JSNumber n) = []
   \<and> sanitizeInput (JSArray vs) = [] \<and> sanitizeInput (JSObject props) = []"
  by (cases v) (simp_all add: sanitizeInput_def sanitize_spec_def escape_chain_concat)

theorem sanitizeInput_meets_spec_witness:
  "sanitizeInput (JSString (u16 '' <b>&'/\"x ''))
     = u16 ''&lt;b&gt;&amp;&#x27;&#x2F;&quot;x''
   \<and> sanitize_spec (JSString (u16 '' <b>&'/\"x ''))
     = u16 ''&lt;b&gt;&amp;&#x27;&#x2F;&quot;x''"
  using sanitizeInput_meets_spec [of "JSString (u16 '' <b>&'/\"x '')"]
  by (simp add: sanitize_spec_def char_reference_def trim_def is_js_whitespace_def u16_def)


section \<open>The history store\<close>

lemma get_add_same:
  "getMessageHistory rm (addMessageToHistory rm m mh) =
     (let h = getMessageHistory rm mh in (if 100 \<le> length h then tl h else h) @ [m])"
  by (simp add: getMessageHistory_def addMessageToHistory_def Let_def)

lemma get_add_other:
  "r \<noteq> rm \<Longrightarrow> getMessageHistory rm (addMessageToHistory r m mh) = getMessageHistory rm mh"
  by (simp add: getMessageHistory_def addMessageToHistory_def Let_def)

lemma history_step:
  "length h \<le> 100 \<Longrightarrow>
     (if 100 \<le> length h then tl h else h) @ [m] = last_n 100 (h @ [m])"
  by (cases h) (auto simp: last_n_def)

lemma last_n_idem: "last_n 100 (last_n 100 xs @ ys) = last_n 100 (xs @ ys)"
proof (cases "length xs \<le> 100")
  case True
  then show ?thesis by (simp add: last_n_def)
next
  case False
  then have "length xs + length ys - (length xs - 100 + 100) + (length xs - 100)
      = length xs + length ys - 100"
    by arith
  with False show ?thesis by (simp add: last_n_def)
qed

lemma length_last_n: "length (last_n 100 xs) \<le> 100"
  by (simp add: last_n_def)

lemma appends_get:
  "length (getMessageHistory rm mh) \<le> 100 \<Longrightarrow>
   getMessageHistory rm (appends apps mh)
     = last_n 100 (getMessageHistory rm mh @ appended_to rm apps)"
proof (induction apps arbitrary: mh)
  case Nil
  then show ?case by (simp add: appended_to_def last_n_def)
next
  case (Cons a apps)
  obtain r m where a: "a = (r, m)" by (cases a)
  show ?case
  proof (cases "r = rm")
    case True
    let ?h = "getMessageHistory rm mh"
    have step: "getMessageHistory rm (addMessageToHistory rm m mh) = last_n 100 (?h @ [m])"
      using history_step [OF Cons.prems, of m] by (simp add: get_add_same Let_def)
    then have len: "length (getMessageHistory rm (addMessageToHistory rm m mh)) \<le> 100"
      by (simp add: length_last_n)
    have "getMessageHistory rm (appends (a # apps) mh)
        = last_n 100 (last_n 100 (?h @ [m]) @ appended_to rm apps)"
      using Cons.IH [OF len] True a step by simp
    also have "\<dots> = last_n 100 ((?h @ [m]) @ appended_to rm apps)"
      by (rule last_n_idem)
    finally show ?thesis using True a by (simp add: appended_to_def)
  next
    case False
    then show ?thesis using Cons a by (simp add: get_add_other appended_to_def)
  qed
qed

text \<open>
  C2: after any sequence of appends to an initially empty store, \<open>getMessageHistory\<close>
  of a room returns exactly the last \<open>min 100 n\<close> of the \<open>n\<close> messages appended to that
  room, in append order, so never more than 100; for a room nothing was appended to
  it returns the empty list (there is no missing result: the function is total).
\<close>

theorem history_window:
  "getMessageHistory rm (appends apps Map.empty)
     = last_n (min 100 (length (appended_to rm apps))) (appended_to rm apps)
   \<and> length (getMessageHistory rm (appends apps Map.empty)) \<le> 100
   \<and> (appended_to rm apps = [] \<longrightarrow> getMessageHistory rm (appends apps Map.empty) = [])
   \<and> getMessageHistory rm Map.empty = []"
  using appends_get [of rm Map.empty apps]
  by (auto simp add: getMessageHistory_def last_n_def min_def)

theorem history_window_witness:
  "getMessageHistory (u16 ''tech'')
     (appends (replicate 100 (u16 ''tech'', JSNull)
               @ [(u16 ''gaming'', JSNumber 0), (u16 ''tech'', JSNumber 1),
                  (u16 ''tech'', JSNumber 2)]) Map.empty)
     = replicate 98 JSNull @ [JSNumber 1, JSNumber 2]
   \<and> getMessageHistory (u16 ''games'')
     (appends (replicate 100 (u16 ''tech'', JSNull)
               @ [(u16 ''gaming'', JSNumber 0), (u16 ''tech'', JSNumber 1),
                  (u16 ''tech'', JSNumber 2)]) Map.empty) = []"
  using
    history_window [of "u16 ''tech''" "replicate 100 (u16 ''tech'', JSNull)
               @ [(u16 ''gaming'', JSNumber 0), (u16 ''tech'', JSNumber 1),
                  (u16 ''tech'', JSNumber 2)]"]
    history_window [of "u16 ''games''" "replicate 100 (u16 ''tech'', JSNull)
               @ [(u16 ''gaming'', JSNumber 0), (u16 ''tech'', JSNumber 1),
                  (u16 ''tech'', JSNumber 2)]"]
  by (simp add: appended_to_def last_n_def u16_def)

section \<open>The rate limiter\<close>

lemma isRateLimited_eq:
  "isRateLimited sock now rl =
     (10 \<le> length (filter (young now) (stored rl sock)),
      rl(sock \<mapsto> filter (young now) (stored rl sock)))"
  by (simp add: isRateLimited_def stored_def young_def [abs_def] Let_def
        RATE_LIMIT_MAX_def RATE_LIMIT_WINDOW_def)

lemma stored_add:
  "stored (addRateLimitTimestamp sock t rl) sock = stored rl sock @ [t]"
  by (simp add: addRateLimitTimestamp_def stored_def)

lemma stored_upd: "stored (rl(sock \<mapsto> ts)) sock = ts"
  by (simp add: stored_def)

lemma attempt_eq:
  "attempt sock (rl, adm) (tc, tr) =
     (if 10 \<le> length (filter (young tc) (stored rl sock))
      then (rl(sock \<mapsto> filter (young tc) (stored rl sock)), adm)
      else (addRateLimitTimestamp sock tr (rl(sock \<mapsto> filter (young tc) (stored rl sock))),
            adm @ [(tc, tr)]))"
  by (simp add: attempt_def isRateLimited_eq)

lemma young_filter_later:
  "tc \<le> x \<Longrightarrow> filter (\<lambda>t. young tc t \<and> young x t) ts = filter (young x) ts"
  by (induction ts) (auto simp: young_def)

lemma clock_readings_snoc: "clock_readings (es @ [(tc, tr)]) = clock_readings es @ [tc, tr]"
  by (simp add: clock_readings_def)

lemma chronological_snoc:
  "chronological (es @ [(tc, tr)]) \<longleftrightarrow>
     chronological es \<and> (\<forall>t \<in> set (clock_readings es). t \<le> tc) \<and> tc \<le> tr"
  by (auto simp: chronological_def clock_readings_snoc sorted_append)

lemma filter_length_mono:
  "(\<And>x. x \<in> set xs \<Longrightarrow> P x \<Longrightarrow> Q x) \<Longrightarrow> length (filter P xs) \<le> length (filter Q xs)"
  by (induction xs) auto

lemma admitted_in_window_eq:
  "admitted_in_window w adm = length (filter (\<lambda>(c, r). w \<le> c \<and> c < w + 10000) adm)"
  by (simp add: admitted_in_window_def RATE_LIMIT_WINDOW_def)

lemma rl_inv_step:
  assumes inv: "rl_inv sock es (rl, adm)"
    and before: "\<forall>t \<in> set (clock_readings es). t \<le> tc"
    and le: "tc \<le> tr"
  shows "rl_inv sock (es @ [(tc, tr)]) (attempt sock (rl, adm) (tc, tr))"
proof -
  let ?F = "filter (young tc) (stored rl sock)"
  from inv have a: "\<forall>(c, r) \<in> set adm. c \<le> r \<and> r \<in> set (clock_readings es)"
    and b: "\<And>x. (\<forall>t \<in> set (clock_readings es). t \<le> x) \<Longrightarrow>
             length (filter (\<lambda>(c, r). young x r) adm) \<le> length (filter (young x) (stored rl sock))"
    and c: "\<And>w. admitted_in_window w adm \<le> 10"
    by (auto simp: rl_inv_def)
  have later: "(\<forall>t \<in> set (clock_readings (es @ [(tc, tr)])). t \<le> x) \<Longrightarrow>
      tc \<le> x \<and> tr \<le> x \<and> (\<forall>t \<in> set (clock_readings es). t \<le> x)" for x
    by (simp add: clock_readings_snoc)
  show ?thesis
  proof (cases "10 \<le> length ?F")
    case True
    have "length (filter (\<lambda>(c, r). young x r) adm) \<le> length (filter (young x) ?F)"
      if "\<forall>t \<in> set (clock_readings (es @ [(tc, tr)])). t \<le> x" for x
      using later [OF that] b [of x] by (simp add: young_filter_later)
    with True a c show ?thesis
      by (auto simp: rl_inv_def attempt_eq stored_upd clock_readings_snoc)
  next
    case False
    have b': "length (filter (\<lambda>(c, r). young x r) (adm @ [(tc, tr)]))
                \<le> length (filter (young x) (?F @ [tr]))"
      if "\<forall>t \<in> set (clock_readings (es @ [(tc, tr)])). t \<le> x" for x
      using later [OF that] b [of x] by (simp add: young_filter_later)
    have c': "admitted_in_window w (adm @ [(tc, tr)]) \<le> 10" for w
    proof (cases "w \<le> tc \<and> tc < w + 10000")
      case True
      have "admitted_in_window w adm \<le> length (filter (\<lambda>(c, r). young tc r) adm)"
        unfolding admitted_in_window_eq
        using a True by (intro filter_length_mono) (auto simp: young_def)
      also have "\<dots> \<le> length ?F" using b [of tc] before by simp
      finally have "admitted_in_window w adm < 10" using False by simp
      then show ?thesis using True by (simp add: admitted_in_window_eq)
    next
      case False
      then show ?thesis using c [of w] by (auto simp: admitted_in_window_eq)
    qed
    from False a le b' c' show ?thesis
      by (auto simp: rl_inv_def attempt_eq stored_add stored_upd clock_readings_snoc)
  qed
qed

lemma attempts_snoc: "attempts sock (es @ [e]) rl = attempt sock (attempts sock es rl) e"
  by (simp add: attempts_def)

lemma rl_inv_attempts:
  "chronological es \<Longrightarrow> rl_inv sock es (attempts sock es rl)"
proof (induction es rule: rev_induct)
  case Nil
  show ?case by (simp add: attempts_def rl_inv_def admitted_in_window_eq)
next
  case (snoc e es)
  obtain tc tr where e: "e = (tc, tr)" by (cases e)
  obtain rl1 adm where st: "attempts sock es rl = (rl1, adm)" by (cases "attempts sock es rl")
  from snoc.prems e have chr: "chronological es" and before: "\<forall>t \<in> set (clock_readings es). t \<le> tc"
    and le: "tc \<le> tr"
    by (simp_all add: chronological_snoc)
  from snoc.IH [OF chr] st have "rl_inv sock es (rl1, adm)" by simp
  from rl_inv_step [OF this before le] show ?case
    by (simp add: attempts_snoc st e)
qed

lemma window_bound:
  "chronological es \<Longrightarrow> admitted_in_window w (snd (attempts sock es rl)) \<le> 10"
  using rl_inv_attempts [of es sock rl]
  by (cases "attempts sock es rl") (simp add: rl_inv_def)

text \<open>
  C3: over any sequence of check-then-record attempts of one connection whose clock
  readings never decrease, started from any stored state, at most 10 attempts are
  admitted in any window of 10,000 ms; \<open>isRateLimited\<close> answers true exactly when at
  least 10 stored timestamps are younger than 10,000 ms, and it stores the filtered
  timestamps whatever the caller does next.
\<close>

theorem rate_limit_window:
  assumes "chronological es"
  shows "admitted_in_window w (snd (attempts sock es rl)) \<le> RATE_LIMIT_MAX
    \<and> fst (isRateLimited sock now rl)
        = (RATE_LIMIT_MAX \<le> length (filter (\<lambda>t. now - t < RATE_LIMIT_WINDOW)
             (case rl sock of None \<Rightarrow> [] | Some ts \<Rightarrow> ts)))
    \<and> snd (isRateLimited sock now rl)
        = rl(sock \<mapsto> filter (\<lambda>t. now - t < RATE_LIMIT_WINDOW)
             (case rl sock of None \<Rightarrow> [] | Some ts \<Rightarrow> ts))"
  using window_bound [OF assms, of w sock rl]
  by (simp add: isRateLimited_def Let_def RATE_LIMIT_MAX_def)

theorem rate_limit_window_witness:
  "chronological [(0,0),(1,1),(2,3),(3,3),(4,4),(5,5),(6,6),(7,7),(8,8),(9,9),(10,10),
                  (10000,10002)]
   \<and> snd (attempts [1] [(0,0),(1,1),(2,3),(3,3),(4,4),(5,5),(6,6),(7,7),(8,8),(9,9),(10,10),
                  (10000,10002)] Map.empty)
       = [(0,0),(1,1),(2,3),(3,3),(4,4),(5,5),(6,6),(7,7),(8,8),(9,9),(10000,10002)]
   \<and> admitted_in_window 1 (snd (attempts [1] [(0,0),(1,1),(2,3),(3,3),(4,4),(5,5),(6,6),
                  (7,7),(8,8),(9,9),(10,10),(10000,10002)] Map.empty)) \<le> RATE_LIMIT_MAX
   \<and> fst (isRateLimited [1] 10 (Map.empty([1] \<mapsto> [0,1,3,3,4,5,6,7,8,9])))
   \<and> snd (isRateLimited [1] 10002 (Map.empty([1] \<mapsto> [0,1,3,3,4,5,6,7,8,9]))) [1]
       = Some [3,3,4,5,6,7,8,9]"
proof -
  have chrono: "chronological [(0,0),(1,1),(2,3),(3,3),(4,4),(5,5),(6,6),(7,7),(8,8),(9,9),
                  (10,10),(10000,10002)]"
    by (simp add: chronological_def clock_readings_def)
  have run: "snd (attempts [1] [(0,0),(1,1),(2,3),(3,3),(4,4),(5,5),(6,6),(7,7),(8,8),(9,9),
                  (10,10),(10000,10002)] Map.empty)
       = [(0,0),(1,1),(2,3),(3,3),(4,4),(5,5),(6,6),(7,7),(8,8),(9,9),(10000,10002)]"
    by (simp add: attempts_def attempt_def isRateLimited_def addRateLimitTimestamp_def
          RATE_LIMIT_MAX_def RATE_LIMIT_WINDOW_def)
  show ?thesis
    using chrono run
      rate_limit_window [OF chrono, of 1 "[1]" Map.empty 10]
      rate_limit_window [OF chrono, of 1 "[1]" "Map.empty([1] \<mapsto> [0,1,3,3,4,5,6,7,8,9])" 10]
      rate_limit_window [OF chrono, of 1 "[1]" "Map.empty([1] \<mapsto> [0,1,3,3,4,5,6,7,8,9])" 10002]
    by (simp add: RATE_LIMIT_MAX_def RATE_LIMIT_WINDOW_def)
qed

section \<open>The handlers\<close>

subsection \<open>Sanitized sample texts\<close>

lemma sanitize_alice: "sanitizeInput (JSString (u16 ''alice'')) = u16 ''alice''"
  by (simp add: sanitizeInput_def trim_def is_js_whitespace_def u16_def)

lemma sanitize_tech: "sanitizeInput (JSString (u16 ''tech'')) = u16 ''tech''"
  by (simp add: sanitizeInput_def trim_def is_js_whitespace_def u16_def)

subsection \<open>chat_message with nothing to send\<close>

text \<open>
  C5: when a Joined connection that is not rate-limited sends a \<open>chat_message\<close> whose
  text sanitizes to the empty string, the handler emits nothing (no error, no
  broadcast), leaves the presence registry and every history unchanged, and records
  no attempt: the only change is that the connection's rate window is replaced by its
  timestamps younger than 10,000 ms.
\<close>

theorem empty_chat_message_dropped:
  assumes "map_of (users s) sock = Some u"
    and "\<not> fst (isRateLimited sock (clk 0) (rateLimitMap s))"
    and "get_prop data (u16 ''message'') = Inr raw"
    and "sanitizeInput raw = []"
  shows "snd (chat_message sock data clk s) = []
    \<and> users (fst (chat_message sock data clk s)) = users s
    \<and> messageHistory (fst (chat_message sock data clk s)) = messageHistory s
    \<and> rateLimitMap (fst (chat_message sock data clk s))
        = (rateLimitMap s)(sock \<mapsto> filter (\<lambda>t. clk 0 - t < RATE_LIMIT_WINDOW)
             (case rateLimitMap s sock of None \<Rightarrow> [] | Some ts \<Rightarrow> ts))"
  using assms
  by (simp add: chat_message_def isRateLimited_def Let_def split: prod.splits)

theorem empty_chat_message_dropped_witness:
  "chat_message [1] (JSObject [(u16 ''message'', JSString (u16 ''   ''))]) (\<lambda>i. 12000) alice_in_tech
     = (alice_in_tech\<lparr>rateLimitMap := Map.empty([1] \<mapsto> [5000])\<rparr>, [])"
proof -
  have 1: "map_of (users alice_in_tech) [1]
      = Some \<lparr>username = u16 ''alice'', room = u16 ''tech'', socketId = [1]\<rparr>"
    by (simp add: alice_in_tech_def)
  have 2: "\<not> fst (isRateLimited [1] ((\<lambda>i. 12000) (0::nat)) (rateLimitMap alice_in_tech))"
    by (simp add: alice_in_tech_def isRateLimited_def RATE_LIMIT_MAX_def)
  have 3: "get_prop (JSObject [(u16 ''message'', JSString (u16 ''   ''))]) (u16 ''message'')
      = Inr (JSString (u16 ''   ''))"
    by simp
  have 4: "sanitizeInput (JSString (u16 ''   '')) = []"
    by (simp add: sanitizeInput_def trim_def is_js_whitespace_def u16_def)
  show ?thesis
    using empty_chat_message_dropped [OF 1 2 3 4]
    by (cases "chat_message [1] (JSObject [(u16 ''message'', JSString (u16 ''   ''))])
                 (\<lambda>i. 12000) alice_in_tech")
       (simp add: alice_in_tech_def RATE_LIMIT_WINDOW_def)
qed

subsection \<open>Rejected joins\<close>

text \<open>
  C6: a \<open>join\<close> whose sanitized username is shorter than 2, or is taken in the
  (defaulted) target room, emits exactly one \<open>error\<close> event, to the requesting socket,
  and changes nothing: registry, histories and rate windows are the same, so a
  connection that was Unjoined still is.
\<close>

theorem join_rejected:
  assumes "get_prop data (u16 ''username'') = Inr raw_name"
    and "get_prop data (u16 ''room'') = Inr raw_room"
    and "length (sanitizeInput raw_name) < 2
         \<or> \<not> isUsernameAvailable (sanitizeInput raw_name)
               (or_general (sanitizeInput raw_room)) (users s)"
  shows "fst (join sock data clk s) = s
    \<and> snd (join sock data clk s)
        = [Emit (ToSocket sock) ''error''
             (JSObject [(u16 ''message'',
                JSString (if length (sanitizeInput raw_name) < 2 then short_username_text
                          else username_taken_text))])]
    \<and> map_of (users (fst (join sock data clk s))) sock = map_of (users s) sock"
  using assms
  by (auto simp add: join_def Let_def emit_error_def error_payload_def
        short_username_text_def username_taken_text_def)

theorem join_rejected_witness:
  "join [2] (JSObject [(u16 ''username'', JSString (u16 ''alice'')),
                       (u16 ''room'', JSString (u16 ''tech''))]) (\<lambda>i. 7) alice_in_tech
     = (alice_in_tech,
        [Emit (ToSocket [2]) ''error'' (JSObject [(u16 ''message'', JSString username_taken_text)])])
   \<and> map_of (users alice_in_tech) [2] = None
   \<and> join [2] (JSObject [(u16 ''username'', JSString (u16 '' a''))]) (\<lambda>i. 7) init
     = (init,
        [Emit (ToSocket [2]) ''error'' (JSObject [(u16 ''message'', JSString short_username_text)])])"
proof -
  let ?d1 = "JSObject [(u16 ''username'', JSString (u16 ''alice'')),
                       (u16 ''room'', JSString (u16 ''tech''))]"
  let ?d2 = "JSObject [(u16 ''username'', JSString (u16 '' a''))]"
  have a1: "get_prop ?d1 (u16 ''username'') = Inr (JSString (u16 ''alice''))"
    and a2: "get_prop ?d1 (u16 ''room'') = Inr (JSString (u16 ''tech''))"
    by (simp_all add: u16_def)
  have a3: "length (sanitizeInput (JSString (u16 ''alice''))) < 2
         \<or> \<not> isUsernameAvailable (sanitizeInput (JSString (u16 ''alice'')))
               (or_general (sanitizeInput (JSString (u16 ''tech'')))) (users alice_in_tech)"
    unfolding sanitize_alice sanitize_tech
    by (simp add: or_general_def isUsernameAvailable_def alice_in_tech_def u16_def)
  have b1: "get_prop ?d2 (u16 ''username'') = Inr (JSString (u16 '' a''))"
    and b2: "get_prop ?d2 (u16 ''room'') = Inr JSUndefined"
    by (simp_all add: u16_def)
  have b3: "length (sanitizeInput (JSString (u16 '' a''))) < 2
         \<or> \<not> isUsernameAvailable (sanitizeInput (JSString (u16 '' a'')))
               (or_general (sanitizeInput JSUndefined)) (users init)"
    by (simp add: sanitizeInput_def trim_def is_js_whitespace_def u16_def)
  show ?thesis
    using join_rejected [OF a1 a2 a3, of "[2]" "\<lambda>i. 7"] join_rejected [OF b1 b2 b3, of "[2]" "\<lambda>i. 7"]
    apply (cases "join [2] ?d1 (\<lambda>i. 7) alice_in_tech")
    apply (cases "join [2] ?d2 (\<lambda>i. 7) init")
    unfolding sanitize_alice
    apply (simp add: sanitizeInput_def trim_def is_js_whitespace_def u16_def alice_in_tech_def)
    done
qed

subsection \<open>Disconnecting\<close>

lemma map_of_delete_same: "map_of (AList.delete k xs) k = None"
  by (induction xs) auto

lemma not_listed_after_delete:
  "\<not> listed_in sock (getUsersInRoom rm (AList.delete sock us))"
  by (induction us) (auto simp: listed_in_def getUsersInRoom_def u16_def)

lemma no_entry_after_delete: "filter (\<lambda>(k, u). k = sock) (AList.delete sock us) = []"
  by (induction us) auto

lemma delete_absent: "map_of us k = None \<Longrightarrow> AList.delete k us = us"
  by (induction us) (auto split: if_splits)

lemma disconnect_users: "users (fst (disconnect sock clk s)) = AList.delete sock (users s)"
  by (simp add: disconnect_def Let_def delete_absent split: option.splits)

lemma disconnect_rate:
  "rateLimitMap (fst (disconnect sock clk s)) = (rateLimitMap s)(sock := None)"
  by (simp add: disconnect_def Let_def split: option.splits)

lemma disconnect_history:
  "messageHistory (fst (disconnect sock clk s)) = messageHistory s"
  by (simp add: disconnect_def Let_def split: option.splits)

text \<open>
  C7: \<open>disconnect\<close> deletes the connection's entry from the presence registry (the
  other entries stay), so the connection is in no room's user list, deletes its rate
  window whether or not it had a user, touches no history, and a second \<open>disconnect\<close>
  of the same connection changes nothing and emits nothing.
\<close>

theorem disconnect_cleanup:
  "users (fst (disconnect sock clk s)) = AList.delete sock (users s)
   \<and> map_of (users (fst (disconnect sock clk s))) sock = None
   \<and> filter (\<lambda>(k, u). k = sock) (users (fst (disconnect sock clk s))) = []
   \<and> \<not> listed_in sock (getUsersInRoom rm (users (fst (disconnect sock clk s))))
   \<and> rateLimitMap (fst (disconnect sock clk s)) = (rateLimitMap s)(sock := None)
   \<and> rateLimitMap (fst (disconnect sock clk s)) sock = None
   \<and> messageHistory (fst (disconnect sock clk s)) = messageHistory s
   \<and> disconnect sock clk2 (fst (disconnect sock clk s)) = (fst (disconnect sock clk s), [])"
proof -
  let ?s1 = "fst (disconnect sock clk s)"
  have u: "users ?s1 = AList.delete sock (users s)" by (rule disconnect_users)
  have r: "rateLimitMap ?s1 = (rateLimitMap s)(sock := None)" by (rule disconnect_rate)
  have gone: "map_of (users ?s1) sock = None" by (simp add: u map_of_delete_same)
  have "rateLimitMap ?s1 sock = None" by (simp add: r)
  then have "(rateLimitMap ?s1)(sock := None) = rateLimitMap ?s1" by (simp add: fun_upd_idem_iff)
  then have again: "disconnect sock clk2 ?s1 = (?s1, [])"
    using gone by (simp add: disconnect_def)
  have none: "filter (\<lambda>(k, u). k = sock) (users ?s1) = []"
    unfolding u by (rule no_entry_after_delete)
  show ?thesis
    using u r gone again none not_listed_after_delete [of sock rm "users s"]
    by (simp add: disconnect_history)
qed

theorem disconnect_cleanup_witness:
  "fst (disconnect [1] (\<lambda>i. 9) alice_in_tech) = init
   \<and> listed_in [1] (getUsersInRoom (u16 ''tech'') (users alice_in_tech))
   \<and> \<not> listed_in [1] (getUsersInRoom (u16 ''tech'') (users (fst (disconnect [1] (\<lambda>i. 9) alice_in_tech))))
   \<and> disconnect [1] (\<lambda>i. 10) init = (init, [])"
proof -
  have eq: "fst (disconnect [1] (\<lambda>i. 9) alice_in_tech) = init"
    by (simp add: disconnect_def alice_in_tech_def init_def Let_def)
  show ?thesis
    using disconnect_cleanup [of "[1]" "\<lambda>i. 9" alice_in_tech "u16 ''tech''" "\<lambda>i. 10"]
    unfolding eq
    by (simp add: listed_in_def getUsersInRoom_def alice_in_tech_def u16_def)
qed

subsection \<open>Joining again\<close>








section \<open>Histories over runs of the server\<close>

lemmas handler_defs =
  join_def chat_message_def private_message_def typing_def change_room_def disconnect_def
  get_users_def get_rooms_def count_rooms_def lookup_target_def
  isRateLimited_def addRateLimitTimestamp_def getUsersInRoom_def isUsernameAvailable_def
  addMessageToHistory_def getMessageHistory_def or_general_def emit_error_def error_payload_def
  system_message_def user_message_def RATE_LIMIT_MAX_def RATE_LIMIT_WINDOW_def
  sanitizeInput_def trim_def is_js_whitespace_def

lemma user_message_is_user: "is_user_message (user_message u m ts sock)"
  by (simp add: is_user_message_def user_message_def u16_def)

lemma join_history: "messageHistory (fst (join sock data clk s)) = messageHistory s"
  by (simp add: join_def Let_def split: sum.splits)

lemma private_message_history:
  "messageHistory (fst (private_message sock data clk s)) = messageHistory s"
  by (simp add: private_message_def Let_def split: sum.splits option.splits prod.splits)

lemma typing_history: "typing sock data s = Inr (s1, out) \<Longrightarrow> messageHistory s1 = messageHistory s"
  by (auto simp add: typing_def split: sum.splits option.splits)

lemma change_room_history:
  "messageHistory (fst (change_room sock data clk s)) = messageHistory s"
  by (simp add: change_room_def Let_def split: sum.splits option.splits)

lemma get_users_history: "messageHistory (fst (get_users sock s)) = messageHistory s"
  by (simp add: get_users_def split: option.splits)

lemma get_rooms_history: "messageHistory (fst (get_rooms sock s)) = messageHistory s"
  by (simp add: get_rooms_def)

lemma chat_message_history:
  "messageHistory (fst (chat_message sock data clk s)) = messageHistory s
   \<or> (\<exists>u m. map_of (users s) sock = Some u
          \<and> messageHistory (fst (chat_message sock data clk s))
              = addMessageToHistory (room u) (user_message u m (clk 2) sock) (messageHistory s))"
  by (auto simp add: chat_message_def Let_def split: sum.splits option.splits prod.splits)

lemma other_events_keep_history:
  "\<not> is_chat_message e \<Longrightarrow> step e s = Inr (s1, out) \<Longrightarrow> messageHistory s1 = messageHistory s"
proof (cases e)
  case (Join sock data clk)
  assume "step e s = Inr (s1, out)"
  with Join have "s1 = fst (join sock data clk s)" by simp
  then show ?thesis by (simp add: join_history)
next
  case (PrivateMessage sock data clk)
  assume "step e s = Inr (s1, out)"
  with PrivateMessage have "s1 = fst (private_message sock data clk s)" by simp
  then show ?thesis by (simp add: private_message_history)
next
  case (Typing sock data)
  assume "step e s = Inr (s1, out)"
  with Typing show ?thesis by (simp add: typing_history)
next
  case (ChangeRoom sock data clk)
  assume "step e s = Inr (s1, out)"
  with ChangeRoom have "s1 = fst (change_room sock data clk s)" by simp
  then show ?thesis by (simp add: change_room_history)
next
  case (Disconnect sock clk)
  assume "step e s = Inr (s1, out)"
  with Disconnect have "s1 = fst (disconnect sock clk s)" by simp
  then show ?thesis by (simp add: disconnect_history)
next
  case (GetUsers sock)
  assume "step e s = Inr (s1, out)"
  with GetUsers have "s1 = fst (get_users sock s)" by simp
  then show ?thesis by (simp add: get_users_history)
next
  case (GetRooms sock)
  assume "step e s = Inr (s1, out)"
  with GetRooms have "s1 = fst (get_rooms sock s)" by simp
  then show ?thesis by (simp add: get_rooms_history)
next
  case (ChatMessage sock data clk)
  assume "\<not> is_chat_message e"
  with ChatMessage show ?thesis by simp
qed

lemma step_history:
  assumes "step e s = Inr (s1, out)"
  shows "messageHistory s1 = messageHistory s
     \<or> (\<exists>r m. is_user_message m \<and> messageHistory s1 = addMessageToHistory r m (messageHistory s))"
proof (cases "is_chat_message e")
  case False
  then show ?thesis using assms other_events_keep_history by blast
next
  case True
  then obtain sock data clk where e: "e = ChatMessage sock data clk" by (cases e) auto
  with assms have "s1 = fst (chat_message sock data clk s)" by simp
  then show ?thesis
    using chat_message_history [of sock data clk s] user_message_is_user by blast
qed

lemma add_keeps_user_messages:
  assumes "\<And>rm. list_all is_user_message (getMessageHistory rm mh)" and "is_user_message m"
  shows "list_all is_user_message (getMessageHistory rm (addMessageToHistory r m mh))"
proof (cases "r = rm")
  case True
  have "list_all is_user_message (tl (getMessageHistory rm mh))"
    using assms(1) [of rm] by (cases "getMessageHistory rm mh") simp_all
  with True assms show ?thesis by (simp add: get_add_same Let_def)
next
  case False
  with assms show ?thesis by (simp add: get_add_other)
qed

lemma run_keeps_user_messages:
  "run evs s = Inr (s1, out) \<Longrightarrow> (\<And>rm. list_all is_user_message (getMessageHistory rm (messageHistory s)))
    \<Longrightarrow> list_all is_user_message (getMessageHistory rm (messageHistory s1))"
proof (induction evs arbitrary: s out rm)
  case Nil
  then show ?case by simp
next
  case (Cons e evs)
  from Cons.prems(1) obtain s' out' out'' where st: "step e s = Inr (s', out')"
    and rest: "run evs s' = Inr (s1, out'')"
    by (auto split: sum.splits prod.splits)
  have "list_all is_user_message (getMessageHistory rm' (messageHistory s'))" for rm'
    using step_history [OF st] Cons.prems(2) add_keeps_user_messages by auto
  with Cons.IH [OF rest] show ?case by simp
qed

text \<open>
  C9: in every state the server reaches from its initial state, every message of every
  room's history has type \<open>user\<close>; and every event other than \<open>chat_message\<close> leaves
  the history store as it was, so no system notice and no private message is ever
  stored.
\<close>

theorem history_holds_only_user_messages:
  assumes "run evs init = Inr (s, out)"
  shows "list_all is_user_message (getMessageHistory rm (messageHistory s))
    \<and> (\<not> is_chat_message e \<and> step e s = Inr (s1, out1) \<longrightarrow> messageHistory s1 = messageHistory s)"
  using run_keeps_user_messages [OF assms, of rm] other_events_keep_history [of e s s1 out1]
  by (simp add: init_def getMessageHistory_def)


theorem history_holds_only_user_messages_witness:
  "\<exists>s out.
     run [Join [1] (join_data ''alice'' ''tech'') (\<lambda>i. 1),
          ChatMessage [1] (message_data ''<script>'') (\<lambda>i. 2),
          PrivateMessage [1] (JSObject [(u16 ''message'', JSString (u16 ''psst'')),
                                        (u16 ''targetSocketId'', JSString [1])]) (\<lambda>i. 3),
          ChangeRoom [1] (room_data ''gaming'') (\<lambda>i. 4),
          Disconnect [1] (\<lambda>i. 5)] init = Inr (s, out)
   \<and> getMessageHistory (u16 ''tech'') (messageHistory s)
       = [user_message alice (u16 ''&lt;script&gt;'') 2 [1]]
   \<and> list_all is_user_message (getMessageHistory (u16 ''tech'') (messageHistory s))
   \<and> messageHistory (fst (disconnect [1] (\<lambda>i. 6) s)) = messageHistory s"
proof -
  let ?evs = "[Join [1] (join_data ''alice'' ''tech'') (\<lambda>i. 1),
          ChatMessage [1] (message_data ''<script>'') (\<lambda>i. 2),
          PrivateMessage [1] (JSObject [(u16 ''message'', JSString (u16 ''psst'')),
                                        (u16 ''targetSocketId'', JSString [1])]) (\<lambda>i. 3),
          ChangeRoom [1] (room_data ''gaming'') (\<lambda>i. 4),
          Disconnect [1] (\<lambda>i. 5)]"
  have "\<exists>s out. run ?evs init = Inr (s, out)
      \<and> getMessageHistory (u16 ''tech'') (messageHistory s)
          = [user_message alice (u16 ''&lt;script&gt;'') 2 [1]]"
    by (simp add: handler_defs init_def alice_def join_data_def message_data_def room_data_def
          u16_def Let_def)
  then obtain s out where r: "run ?evs init = Inr (s, out)"
    and h: "getMessageHistory (u16 ''tech'') (messageHistory s)
          = [user_message alice (u16 ''&lt;script&gt;'') 2 [1]]"
    by blast
  have "step (Disconnect [1] (\<lambda>i. 6)) s = Inr (disconnect [1] (\<lambda>i. 6) s)" by simp
  then have st: "step (Disconnect [1] (\<lambda>i. 6)) s
      = Inr (fst (disconnect [1] (\<lambda>i. 6) s), snd (disconnect [1] (\<lambda>i. 6) s))"
    by simp
  from history_holds_only_user_messages [OF r, of "u16 ''tech''" "Disconnect [1] (\<lambda>i. 6)"
      "fst (disconnect [1] (\<lambda>i. 6) s)" "snd (disconnect [1] (\<lambda>i. 6) s)"] st
  have "list_all is_user_message (getMessageHistory (u16 ''tech'') (messageHistory s))"
    and "messageHistory (fst (disconnect [1] (\<lambda>i. 6) s)) = messageHistory s"
    by simp_all
  with r h show ?thesis by blast
qed


lemma join_no_broadcast: "filter (is_broadcast_to rm) (snd (join sock data clk s)) = []"
  by (simp add: join_def Let_def emit_error_def split: sum.splits)

lemma private_message_no_broadcast:
  "filter (is_broadcast_to rm) (snd (private_message sock data clk s)) = []"
  by (simp add: private_message_def Let_def emit_error_def
      split: sum.splits option.splits prod.splits)

lemma typing_no_broadcast:
  "typing sock data s = Inr (s1, out) \<Longrightarrow> filter (is_broadcast_to rm) out = []"
  by (auto simp add: typing_def split: sum.splits option.splits)

lemma change_room_no_broadcast:
  "filter (is_broadcast_to rm) (snd (change_room sock data clk s)) = []"
  by (simp add: change_room_def Let_def emit_error_def split: sum.splits option.splits)

lemma disconnect_no_broadcast:
  "filter (is_broadcast_to rm) (snd (disconnect sock clk s)) = []"
  by (simp add: disconnect_def Let_def split: option.splits)

lemma get_users_no_broadcast: "filter (is_broadcast_to rm) (snd (get_users sock s)) = []"
  by (simp add: get_users_def split: option.splits)

lemma get_rooms_no_broadcast: "filter (is_broadcast_to rm) (snd (get_rooms sock s)) = []"
  by (simp add: get_rooms_def)

lemma other_events_no_broadcast:
  assumes "\<not> is_chat_message e" and "step e s = Inr (s1, out)"
  shows "filter (is_broadcast_to rm) out = []"
proof (cases e)
  case (Join sock data clk)
  with assms(2) have "out = snd (join sock data clk s)" by auto
  then show ?thesis by (simp add: join_no_broadcast)
next
  case (ChatMessage sock data clk)
  with assms(1) show ?thesis by simp
next
  case (PrivateMessage sock data clk)
  with assms(2) have "out = snd (private_message sock data clk s)" by auto
  then show ?thesis by (simp add: private_message_no_broadcast)
next
  case (Typing sock data)
  with assms(2) show ?thesis by (simp add: typing_no_broadcast)
next
  case (ChangeRoom sock data clk)
  with assms(2) have "out = snd (change_room sock data clk s)" by auto
  then show ?thesis by (simp add: change_room_no_broadcast)
next
  case (Disconnect sock clk)
  with assms(2) have "out = snd (disconnect sock clk s)" by auto
  then show ?thesis by (simp add: disconnect_no_broadcast)
next
  case (GetUsers sock)
  with assms(2) have "out = snd (get_users sock s)" by auto
  then show ?thesis by (simp add: get_users_no_broadcast)
next
  case (GetRooms sock)
  with assms(2) have "out = snd (get_rooms sock s)" by auto
  then show ?thesis by (simp add: get_rooms_no_broadcast)
qed

lemma chat_message_room_effect:
  "(filter (is_broadcast_to rm) (snd (chat_message sock data clk s)) = []
      \<and> getMessageHistory rm (messageHistory (fst (chat_message sock data clk s)))
          = getMessageHistory rm (messageHistory s))
   \<or> (\<exists>m'. length (filter (is_broadcast_to rm) (snd (chat_message sock data clk s))) = 1
          \<and> getMessageHistory rm (messageHistory (fst (chat_message sock data clk s)))
              = (if 100 \<le> length (getMessageHistory rm (messageHistory s))
                 then tl (getMessageHistory rm (messageHistory s))
                 else getMessageHistory rm (messageHistory s)) @ [m'])"
  by (auto simp add: chat_message_def Let_def emit_error_def get_add_same get_add_other
      split: sum.splits option.splits prod.splits)

lemma step_room_effect:
  assumes "step e s = Inr (s1, out)"
  shows "(filter (is_broadcast_to rm) out = []
      \<and> getMessageHistory rm (messageHistory s1) = getMessageHistory rm (messageHistory s))
   \<or> (\<exists>m'. length (filter (is_broadcast_to rm) out) = 1
          \<and> getMessageHistory rm (messageHistory s1)
              = (if 100 \<le> length (getMessageHistory rm (messageHistory s))
                 then tl (getMessageHistory rm (messageHistory s))
                 else getMessageHistory rm (messageHistory s)) @ [m'])"
proof (cases "is_chat_message e")
  case False
  from other_events_no_broadcast [OF False assms] other_events_keep_history [OF False assms]
  show ?thesis by simp
next
  case True
  then obtain sock data clk where e: "e = ChatMessage sock data clk" by (cases e) auto
  with assms have "s1 = fst (chat_message sock data clk s)"
    and "out = snd (chat_message sock data clk s)"
    by auto
  with chat_message_room_effect [of rm sock data clk s] show ?thesis by simp
qed

lemma run_keeps_message:
  "run evs s = Inr (s1, out) \<Longrightarrow>
   getMessageHistory rm (messageHistory s) = pre @ [m] @ later \<Longrightarrow>
   length later + messages_to rm evs s < 100 \<Longrightarrow>
   \<exists>k later'. getMessageHistory rm (messageHistory s1) = drop k pre @ [m] @ later'
      \<and> length later' = length later + messages_to rm evs s"
proof (induction evs arbitrary: s out pre later)
  case Nil
  then have "getMessageHistory rm (messageHistory s1) = drop 0 pre @ [m] @ later" by simp
  then show ?case by (intro exI [of _ 0] exI [of _ later]) simp
next
  case (Cons e evs)
  let ?h = "getMessageHistory rm (messageHistory s)"
  from Cons.prems(1) obtain s' out' out'' where st: "step e s = Inr (s', out')"
    and rest: "run evs s' = Inr (s1, out'')"
    by (auto split: sum.splits prod.splits)
  have count: "messages_to rm (e # evs) s
      = length (filter (is_broadcast_to rm) out') + messages_to rm evs s'"
    by (simp add: st)
  from step_room_effect [OF st, of rm] consider
      (same) "filter (is_broadcast_to rm) out' = []"
        and "getMessageHistory rm (messageHistory s') = ?h"
    | (more) m' where "length (filter (is_broadcast_to rm) out') = 1"
        and "getMessageHistory rm (messageHistory s')
               = (if 100 \<le> length ?h then tl ?h else ?h) @ [m']"
    by blast
  then show ?case
  proof cases
    case same
    with Cons.prems count have h: "getMessageHistory rm (messageHistory s') = pre @ [m] @ later"
      and len: "length later + messages_to rm evs s' < 100"
      by simp_all
    from Cons.IH [OF rest h len] obtain k later'
      where "getMessageHistory rm (messageHistory s1) = drop k pre @ [m] @ later'"
        and "length later' = length later + messages_to rm evs s'"
      by blast
    with count same(1) show ?thesis by (intro exI [of _ k] exI [of _ later']) simp
  next
    case more
    have len: "length (later @ [m']) + messages_to rm evs s' < 100"
      using Cons.prems(3) count more(1) by simp
    show ?thesis
    proof (cases "100 \<le> length ?h")
      case True
      with Cons.prems(2,3) count more(1) have "pre \<noteq> []" by auto
      then have "tl ?h = tl pre @ [m] @ later"
        using Cons.prems(2) by simp
      with more(2) True
      have h: "getMessageHistory rm (messageHistory s') = tl pre @ [m] @ (later @ [m'])"
        by simp
      from Cons.IH [OF rest h len] obtain k later'
        where "getMessageHistory rm (messageHistory s1) = drop k (tl pre) @ [m] @ later'"
          and "length later' = length (later @ [m']) + messages_to rm evs s'"
        by blast
      with count more(1) show ?thesis
        by (intro exI [of _ "Suc k"] exI [of _ later']) (simp add: drop_Suc)
    next
      case False
      with more(2) Cons.prems(2)
      have h: "getMessageHistory rm (messageHistory s') = pre @ [m] @ (later @ [m'])"
        by simp
      from Cons.IH [OF rest h len] obtain k later'
        where "getMessageHistory rm (messageHistory s1) = drop k pre @ [m] @ later'"
          and "length later' = length (later @ [m']) + messages_to rm evs s'"
        by blast
      with count more(1) show ?thesis by (intro exI [of _ k] exI [of _ later']) simp
    qed
  qed
qed

lemma chat_message_sent:
  assumes "map_of (users s) sock = Some u"
    and "\<not> fst (isRateLimited sock (clk 0) (rateLimitMap s))"
    and "get_prop data (u16 ''message'') = Inr raw"
    and "sanitizeInput raw \<noteq> []"
  shows "snd (chat_message sock data clk s)
           = [Emit (ToRoom (room u)) ''received_message''
                (user_message u (sanitizeInput raw) (clk 2) sock)]"
    and "messageHistory (fst (chat_message sock data clk s))
           = addMessageToHistory (room u) (user_message u (sanitizeInput raw) (clk 2) sock)
               (messageHistory s)"
    and "rateLimitMap (fst (chat_message sock data clk s))
           = addRateLimitTimestamp sock (clk 1)
               (snd (isRateLimited sock (clk 0) (rateLimitMap s)))"
  using assms
  by (auto simp add: chat_message_def Let_def split: prod.splits)

lemma join_accepted_history:
  assumes "get_prop data (u16 ''username'') = Inr raw_name"
    and "get_prop data (u16 ''room'') = Inr raw_room"
    and "2 \<le> length (sanitizeInput raw_name)"
    and "isUsernameAvailable (sanitizeInput raw_name) (or_general (sanitizeInput raw_room)) (users s)"
  shows "filter (emits_event ''message_history'') (snd (join sock data clk s))
           = [Emit (ToSocket sock) ''message_history''
                (JSArray (getMessageHistory (or_general (sanitizeInput raw_room))
                   (messageHistory s)))]"
proof -
  from assms(3) have "sanitizeInput raw_name \<noteq> []" "\<not> length (sanitizeInput raw_name) < 2"
    by auto
  with assms show ?thesis by (simp add: join_def Let_def)
qed

text \<open>
  C8, as the code has it: when a Joined, not rate-limited user sends a \<open>chat_message\<close>
  whose sanitized text is not empty, the handler broadcasts a message object carrying
  that sanitized text and stores it; after any further events that broadcast fewer than
  100 chat messages to the user's room (a history keeps the last 100 messages of its
  room), a connection that joins that room with an accepted username is sent exactly one
  \<open>message_history\<close>, whose payload holds that same object, after the messages stored
  before it (the oldest possibly evicted) and before the messages stored in the room
  since, as many as were broadcast to it.
\<close>

theorem chat_message_round_trip:
  assumes joined: "map_of (users s) sock = Some u"
    and admitted: "\<not> fst (isRateLimited sock (clk 0) (rateLimitMap s))"
    and payload: "get_prop data (u16 ''message'') = Inr raw"
    and nonempty: "sanitizeInput raw \<noteq> []"
    and between: "run evs (fst (chat_message sock data clk s)) = Inr (s2, out2)"
    and few: "messages_to (room u) evs (fst (chat_message sock data clk s)) < 100"
    and name: "get_prop data2 (u16 ''username'') = Inr raw_name"
    and rm: "get_prop data2 (u16 ''room'') = Inr raw_room"
    and valid: "2 \<le> length (sanitizeInput raw_name)"
    and same_room: "or_general (sanitizeInput raw_room) = room u"
    and free: "isUsernameAvailable (sanitizeInput raw_name) (room u) (users s2)"
  shows "\<exists>k later.
      snd (chat_message sock data clk s)
        = [Emit (ToRoom (room u)) ''received_message''
             (user_message u (sanitizeInput raw) (clk 2) sock)]
    \<and> get_prop (user_message u (sanitizeInput raw) (clk 2) sock) (u16 ''message'')
        = Inr (JSString (sanitizeInput raw))
    \<and> filter (emits_event ''message_history'') (snd (join sock2 data2 clk2 s2))
        = [Emit (ToSocket sock2) ''message_history''
             (JSArray (drop k (getMessageHistory (room u) (messageHistory s))
                       @ [user_message u (sanitizeInput raw) (clk 2) sock] @ later))]
    \<and> length later = messages_to (room u) evs (fst (chat_message sock data clk s))"
proof -
  let ?m = "user_message u (sanitizeInput raw) (clk 2) sock"
  let ?h = "getMessageHistory (room u) (messageHistory s)"
  let ?s1 = "fst (chat_message sock data clk s)"
  note sent = chat_message_sent [where clk = clk and s = s and sock = sock and data = data,
      OF joined admitted payload nonempty]
  have "getMessageHistory (room u) (messageHistory ?s1)
          = (if 100 \<le> length ?h then tl ?h else ?h) @ [?m]"
    by (simp add: sent(2) get_add_same Let_def)
  then have h1: "getMessageHistory (room u) (messageHistory ?s1)
          = drop (if 100 \<le> length ?h then 1 else 0) ?h @ [?m] @ []"
    by (simp add: drop_Suc)
  from few have "length ([]::js_value list) + messages_to (room u) evs ?s1 < 100" by simp
  from run_keeps_message [OF between h1 this] obtain k later
    where h2: "getMessageHistory (room u) (messageHistory s2)
                = drop k (drop (if 100 \<le> length ?h then 1 else 0) ?h) @ [?m] @ later"
      and len: "length later = messages_to (room u) evs ?s1"
    by auto
  have "filter (emits_event ''message_history'') (snd (join sock2 data2 clk2 s2))
          = [Emit (ToSocket sock2) ''message_history''
               (JSArray (getMessageHistory (room u) (messageHistory s2)))]"
    using join_accepted_history [OF name rm valid, of s2 sock2 clk2] free same_room by simp
  with h2 have "filter (emits_event ''message_history'') (snd (join sock2 data2 clk2 s2))
          = [Emit (ToSocket sock2) ''message_history''
               (JSArray (drop (k + (if 100 \<le> length ?h then 1 else 0)) ?h @ [?m] @ later))]"
    by (simp add: add.commute)
  moreover have "get_prop ?m (u16 ''message'') = Inr (JSString (sanitizeInput raw))"
    by (simp add: user_message_def u16_def)
  ultimately show ?thesis using sent(1) len by blast
qed

lemma sanitize_bob: "sanitizeInput (JSString (u16 ''bob'')) = u16 ''bob''"
  by (simp add: sanitizeInput_def trim_def is_js_whitespace_def u16_def)

theorem chat_message_round_trip_witness:
  "\<exists>s2 out2 later.
     run [ChatMessage [1] (message_data ''hi'') (\<lambda>i. 12500),
          ChatMessage [7] (message_data ''refused'') (\<lambda>i. 12600),
          Join [3] (join_data ''carol'' ''gaming'') (\<lambda>i. 12700),
          ChatMessage [3] (message_data ''elsewhere'') (\<lambda>i. 12800)]
       (fst (chat_message [1] (message_data ''<script>'') (\<lambda>i. 12000) alice_in_tech))
       = Inr (s2, out2)
   \<and> messages_to (u16 ''tech'')
         [ChatMessage [1] (message_data ''hi'') (\<lambda>i. 12500),
          ChatMessage [7] (message_data ''refused'') (\<lambda>i. 12600),
          Join [3] (join_data ''carol'' ''gaming'') (\<lambda>i. 12700),
          ChatMessage [3] (message_data ''elsewhere'') (\<lambda>i. 12800)]
         (fst (chat_message [1] (message_data ''<script>'') (\<lambda>i. 12000) alice_in_tech)) = 1
   \<and> sanitizeInput (JSString (u16 ''<script>'')) = u16 ''&lt;script&gt;''
   \<and> filter (emits_event ''message_history'')
         (snd (join [2] (join_data ''bob'' ''tech'') (\<lambda>i. 13000) s2))
       = [Emit (ToSocket [2]) ''message_history''
            (JSArray ([user_message alice (u16 ''&lt;script&gt;'') 12000 [1]] @ later))]
   \<and> length later = 1"
proof -
  let ?s1 = "fst (chat_message [1] (message_data ''<script>'') (\<lambda>i. 12000) alice_in_tech)"
  let ?evs = "[ChatMessage [1] (message_data ''hi'') (\<lambda>i. 12500),
          ChatMessage [7] (message_data ''refused'') (\<lambda>i. 12600),
          Join [3] (join_data ''carol'' ''gaming'') (\<lambda>i. 12700),
          ChatMessage [3] (message_data ''elsewhere'') (\<lambda>i. 12800)]"
  have san: "sanitizeInput (JSString (u16 ''<script>'')) = u16 ''&lt;script&gt;''"
    by (simp add: sanitizeInput_def trim_def is_js_whitespace_def u16_def)
  have "\<exists>s2 out2. run ?evs ?s1 = Inr (s2, out2)
      \<and> isUsernameAvailable (u16 ''bob'') (u16 ''tech'') (users s2)"
    by (simp add: handler_defs alice_in_tech_def join_data_def message_data_def u16_def Let_def)
  then obtain s2 out2
    where between: "run ?evs ?s1 = Inr (s2, out2)"
      and avail: "isUsernameAvailable (u16 ''bob'') (u16 ''tech'') (users s2)"
    by blast
  have count: "messages_to (u16 ''tech'') ?evs ?s1 = 1"
    by (simp add: handler_defs alice_in_tech_def join_data_def message_data_def u16_def Let_def)
  have joined: "map_of (users alice_in_tech) [1] = Some alice"
    by (simp add: alice_in_tech_def alice_def)
  have admitted: "\<not> fst (isRateLimited [1] ((\<lambda>i. 12000) (0::nat)) (rateLimitMap alice_in_tech))"
    by (simp add: alice_in_tech_def isRateLimited_def RATE_LIMIT_MAX_def)
  have payload: "get_prop (message_data ''<script>'') (u16 ''message'')
      = Inr (JSString (u16 ''<script>''))"
    by (simp add: message_data_def u16_def)
  have nonempty: "sanitizeInput (JSString (u16 ''<script>'')) \<noteq> []"
    unfolding san by (simp add: u16_def)
  have tech: "room alice = u16 ''tech''" by (simp add: alice_def)
  have few: "messages_to (room alice) ?evs ?s1 < 100"
    unfolding tech count by simp
  have name: "get_prop (join_data ''bob'' ''tech'') (u16 ''username'') = Inr (JSString (u16 ''bob''))"
    and rm: "get_prop (join_data ''bob'' ''tech'') (u16 ''room'') = Inr (JSString (u16 ''tech''))"
    by (simp_all add: join_data_def u16_def)
  have valid: "2 \<le> length (sanitizeInput (JSString (u16 ''bob'')))"
    unfolding sanitize_bob by (simp add: u16_def)
  have same_room: "or_general (sanitizeInput (JSString (u16 ''tech''))) = room alice"
    unfolding sanitize_tech by (simp add: or_general_def alice_def u16_def)
  have free: "isUsernameAvailable (sanitizeInput (JSString (u16 ''bob''))) (room alice)
      (users s2)"
    unfolding sanitize_bob tech by (rule avail)
  from chat_message_round_trip [where clk = "\<lambda>i. 12000" and ?clk2.0 = "\<lambda>i. 13000" and ?sock2.0 = "[2]",
      OF joined admitted payload nonempty between few name rm valid same_room free]
  obtain k later where
    "filter (emits_event ''message_history'')
        (snd (join [2] (join_data ''bob'' ''tech'') (\<lambda>i. 13000) s2))
      = [Emit (ToSocket [2]) ''message_history''
          (JSArray (drop k (getMessageHistory (room alice) (messageHistory alice_in_tech))
                    @ [user_message alice (sanitizeInput (JSString (u16 ''<script>''))) 12000 [1]]
                    @ later))]"
    and "length later = messages_to (room alice) ?evs ?s1"
    by blast
  then have "filter (emits_event ''message_history'')
        (snd (join [2] (join_data ''bob'' ''tech'') (\<lambda>i. 13000) s2))
      = [Emit (ToSocket [2]) ''message_history''
          (JSArray ([user_message alice (u16 ''&lt;script&gt;'') 12000 [1]] @ later))]"
    and "length later = 1"
    unfolding san tech count by (simp_all add: getMessageHistory_def alice_in_tech_def)
  with between count san show ?thesis by blast
qed

subsection \<open>A message evicted before the join\<close>

lemma sanitize_b: "sanitizeInput (JSString (u16 ''b'')) = u16 ''b''"
  by (simp add: sanitizeInput_def trim_def is_js_whitespace_def u16_def)

lemma later_step:
  assumes u: "map_of (users s) [1] = Some alice"
    and r: "rateLimitMap s [1] = Some [t]"
    and t: "t + 10000 \<le> 20000 * int n"
  shows "\<exists>s1. step (later_chat n) s
             = Inr (s1, [Emit (ToRoom (u16 ''tech'')) ''received_message'' (later_message n)])
     \<and> users s1 = users s
     \<and> rateLimitMap s1 [1] = Some [20000 * int n]
     \<and> messageHistory s1
         = addMessageToHistory (u16 ''tech'') (later_message n) (messageHistory s)"
proof -
  let ?clk = "\<lambda>i::nat. 20000 * int n"
  let ?d = "message_data ''b''"
  have lim: "isRateLimited [1] (?clk 0) (rateLimitMap s) = (False, (rateLimitMap s)([1] \<mapsto> []))"
    using r t by (simp add: isRateLimited_def RATE_LIMIT_MAX_def RATE_LIMIT_WINDOW_def)
  then have admitted: "\<not> fst (isRateLimited [1] (?clk 0) (rateLimitMap s))" by simp
  have payload: "get_prop ?d (u16 ''message'') = Inr (JSString (u16 ''b''))"
    by (simp add: message_data_def u16_def)
  have nonempty: "sanitizeInput (JSString (u16 ''b'')) \<noteq> []"
    unfolding sanitize_b by (simp add: u16_def)
  note sent = chat_message_sent [where clk = ?clk and s = s and sock = "[1]" and data = ?d,
      OF u admitted payload nonempty]
  have room: "room alice = u16 ''tech''" by (simp add: alice_def)
  let ?s1 = "fst (chat_message [1] ?d ?clk s)"
  have "step (later_chat n) s = Inr (?s1, snd (chat_message [1] ?d ?clk s))"
    by (simp add: later_chat_def)
  moreover have "snd (chat_message [1] ?d ?clk s)
      = [Emit (ToRoom (u16 ''tech'')) ''received_message'' (later_message n)]"
    using sent(1) by (simp add: room sanitize_b later_message_def)
  moreover have "users ?s1 = users s"
    by (auto simp add: chat_message_def Let_def split: sum.splits option.splits prod.splits)
  moreover have "rateLimitMap ?s1 [1] = Some [20000 * int n]"
    by (simp add: sent(3) lim addRateLimitTimestamp_def)
  moreover have "messageHistory ?s1
      = addMessageToHistory (u16 ''tech'') (later_message n) (messageHistory s)"
    using sent(2) by (simp add: room sanitize_b later_message_def)
  ultimately show ?thesis by simp
qed

lemma later_run:
  "map_of (users s) [1] = Some alice \<Longrightarrow> rateLimitMap s [1] = Some [t] \<Longrightarrow>
   t + 10000 \<le> 20000 * int a \<Longrightarrow>
   \<exists>s2 out. run (map later_chat [a..<a + k]) s = Inr (s2, out)
     \<and> users s2 = users s
     \<and> messageHistory s2
         = appends (map (\<lambda>n. (u16 ''tech'', later_message n)) [a..<a + k]) (messageHistory s)"
proof (induction k arbitrary: s t a)
  case 0
  then show ?case by simp
next
  case (Suc k)
  have upt: "[a..<a + Suc k] = a # [Suc a..<Suc a + k]"
    by (simp add: upt_conv_Cons)
  from later_step [OF Suc.prems] obtain s1
    where st: "step (later_chat a) s
             = Inr (s1, [Emit (ToRoom (u16 ''tech'')) ''received_message'' (later_message a)])"
      and us: "users s1 = users s"
      and rl: "rateLimitMap s1 [1] = Some [20000 * int a]"
      and mh: "messageHistory s1
         = addMessageToHistory (u16 ''tech'') (later_message a) (messageHistory s)"
    by blast
  have u1: "map_of (users s1) [1] = Some alice" using us Suc.prems(1) by simp
  have t1: "20000 * int a + 10000 \<le> 20000 * int (Suc a)" by simp
  from Suc.IH [OF u1 rl t1] obtain s2 out
    where "run (map later_chat [Suc a..<Suc a + k]) s1 = Inr (s2, out)"
      and "users s2 = users s1"
      and "messageHistory s2
         = appends (map (\<lambda>n. (u16 ''tech'', later_message n)) [Suc a..<Suc a + k])
             (messageHistory s1)"
    by blast
  then show ?case
    unfolding upt by (simp add: st us mh)
qed

text \<open>
  C8 as worded, for every later join, fails: alice joins \<open>tech\<close> and sends \<open>first\<close>,
  which is broadcast and stored; she then sends 100 more messages, 20 seconds apart, so
  none is refused; bob, joining \<open>tech\<close> after that, is sent the 100 later messages and
  not \<open>first\<close>, which the history has evicted.
\<close>

theorem chat_message_round_trip_counterexample:
  "(case run (Join [1] (join_data ''alice'' ''tech'') (\<lambda>i. 0)
              # ChatMessage [1] (message_data ''first'') (\<lambda>i. 1)
              # map later_chat [1..<101]) init of
      Inl err \<Rightarrow> False
    | Inr (s2, out2) \<Rightarrow>
        Emit (ToRoom (u16 ''tech'')) ''received_message''
          (user_message alice (u16 ''first'') 1 [1]) \<in> set out2
      \<and> filter (emits_event ''message_history'')
            (snd (join [2] (join_data ''bob'' ''tech'') (\<lambda>i. 2020000) s2))
          = [Emit (ToSocket [2]) ''message_history'' (JSArray (map later_message [1..<101]))]
      \<and> user_message alice (u16 ''first'') 1 [1] \<notin> set (map later_message [1..<101]))"
proof -
  let ?first = "user_message alice (u16 ''first'') 1 [1]"
  let ?j = "join [1] (join_data ''alice'' ''tech'') (\<lambda>i. 0) init"
  let ?c = "chat_message [1] (message_data ''first'') (\<lambda>i. 1) (fst ?j)"
  let ?s0 = "fst ?c"
  have u0: "users ?s0 = [([1], alice)]"
    and r0: "rateLimitMap ?s0 [1] = Some [1]"
    and h0: "getMessageHistory (u16 ''tech'') (messageHistory ?s0) = [?first]"
    and o0: "snd ?c = [Emit (ToRoom (u16 ''tech'')) ''received_message'' ?first]"
    by (simp_all add: handler_defs init_def alice_def join_data_def message_data_def u16_def
          Let_def)
  have u0': "map_of (users ?s0) [1] = Some alice" by (simp add: u0)
  have t0: "(1::int) + 10000 \<le> 20000 * int 1" by simp
  from later_run [OF u0' r0 t0, of 100] obtain s2 out
    where later: "run (map later_chat [1..<101]) ?s0 = Inr (s2, out)"
      and u2: "users s2 = users ?s0"
      and mh2: "messageHistory s2
         = appends (map (\<lambda>n. (u16 ''tech'', later_message n)) [1..<101]) (messageHistory ?s0)"
    by auto
  have whole: "run (Join [1] (join_data ''alice'' ''tech'') (\<lambda>i. 0)
              # ChatMessage [1] (message_data ''first'') (\<lambda>i. 1)
              # map later_chat [1..<101]) init = Inr (s2, snd ?j @ snd ?c @ out)"
    using later by (simp add: case_prod_beta)
  have "length (getMessageHistory (u16 ''tech'') (messageHistory ?s0)) \<le> 100"
    by (simp add: h0)
  from appends_get [OF this, of "map (\<lambda>n. (u16 ''tech'', later_message n)) [1..<101]"]
  have h2: "getMessageHistory (u16 ''tech'') (messageHistory s2) = map later_message [1..<101]"
    by (simp add: mh2 h0 appended_to_def filter_map comp_def last_n_def del: upt_Suc)
  have name: "get_prop (join_data ''bob'' ''tech'') (u16 ''username'') = Inr (JSString (u16 ''bob''))"
    and rm: "get_prop (join_data ''bob'' ''tech'') (u16 ''room'') = Inr (JSString (u16 ''tech''))"
    by (simp_all add: join_data_def u16_def)
  have valid: "2 \<le> length (sanitizeInput (JSString (u16 ''bob'')))"
    unfolding sanitize_bob by (simp add: u16_def)
  have rm_tech: "or_general (sanitizeInput (JSString (u16 ''tech''))) = u16 ''tech''"
    unfolding sanitize_tech by (simp add: or_general_def u16_def)
  have free: "isUsernameAvailable (sanitizeInput (JSString (u16 ''bob'')))
      (or_general (sanitizeInput (JSString (u16 ''tech'')))) (users s2)"
    unfolding sanitize_bob rm_tech u2 u0
    by (simp add: isUsernameAvailable_def alice_def u16_def)
  from join_accepted_history [OF name rm valid free, of "[2]" "\<lambda>i. 2020000"]
  have hist: "filter (emits_event ''message_history'')
            (snd (join [2] (join_data ''bob'' ''tech'') (\<lambda>i. 2020000) s2))
          = [Emit (ToSocket [2]) ''message_history'' (JSArray (map later_message [1..<101]))]"
    unfolding rm_tech h2 .
  have gone: "?first \<notin> set (map later_message [1..<101])"
    by (auto simp add: later_message_def user_message_def u16_def)
  show ?thesis
    unfolding whole using hist gone by (simp add: o0 del: upt_Suc)
qed

section \<open>Usernames within a room\<close>

text \<open>
  C1: the registry reaches a state with two users of the same room under one username:
  \<open>change_room\<close> moves a user into a room without the check that \<open>join\<close> makes.
\<close>

theorem change_room_duplicates_username:
  "(case run [Join [1] (join_data ''alice'' ''tech'') (\<lambda>i. 1),
              Join [2] (join_data ''alice'' ''gaming'') (\<lambda>i. 2),
              ChangeRoom [2] (room_data ''tech'') (\<lambda>i. 3)] init of
      Inl err \<Rightarrow> False
    | Inr (s, out) \<Rightarrow>
        users s = [([1], \<lparr>username = u16 ''alice'', room = u16 ''tech'', socketId = [1]\<rparr>),
                   ([2], \<lparr>username = u16 ''alice'', room = u16 ''tech'', socketId = [2]\<rparr>)]
        \<and> \<not> unique_usernames s)"
  by (simp add: handler_defs init_def join_data_def room_data_def unique_usernames_def u16_def Let_def)


lemma set_update_subset: "set (AList.update k v us) \<subseteq> insert (k, v) (set us)"
  by (induction us) auto

lemma update_keeps_unique:
  assumes "distinct (map (\<lambda>(sock, u). (username u, room u)) us)"
    and "isUsernameAvailable (username v) (room v) us"
  shows "distinct (map (\<lambda>(sock, u). (username u, room u)) (AList.update k v us))"
  using assms
proof (induction us)
  case Nil
  then show ?case by simp
next
  case (Cons a us)
  obtain k' v' where a: "a = (k', v')" by (cases a)
  from Cons.prems(2) a have diff: "(username v', room v') \<noteq> (username v, room v)"
    and avail: "isUsernameAvailable (username v) (room v) us"
    by (auto simp: isUsernameAvailable_def)
  have fresh: "(username v, room v) \<notin> (\<lambda>(sock, u). (username u, room u)) ` set us"
    using avail by (auto simp: isUsernameAvailable_def list_ex_iff)
  show ?case
  proof (cases "k' = k")
    case True
    with a Cons.prems(1) fresh show ?thesis by simp
  next
    case False
    have "(username v', room v') \<notin> (\<lambda>(sock, u). (username u, room u)) ` set (AList.update k v us)"
    proof
      assume "(username v', room v') \<in> (\<lambda>(sock, u). (username u, room u)) ` set (AList.update k v us)"
      then obtain p where p: "p \<in> set (AList.update k v us)"
        and eq: "(username v', room v') = (\<lambda>(sock, u). (username u, room u)) p"
        by blast
      from p set_update_subset [of k v us] have "p = (k, v) \<or> p \<in> set us" by blast
      then show False
      proof
        assume "p = (k, v)"
        with eq diff show False by simp
      next
        assume "p \<in> set us"
        with eq Cons.prems(1) a show False by (auto simp: image_iff)
      qed
    qed
    with False a Cons.prems(1) Cons.IH [OF _ avail] show ?thesis by simp
  qed
qed

lemma delete_keeps_unique:
  "distinct (map f us) \<Longrightarrow> distinct (map f (AList.delete k us))"
  by (simp add: AList.delete_eq distinct_map_filter)

lemma join_keeps_unique:
  "unique_usernames s \<Longrightarrow> unique_usernames (fst (join sock data clk s))"
  using update_keeps_unique [of "users s"
      "\<lparr>username = sanitizeInput raw_name, room = or_general (sanitizeInput raw_room), socketId = sock\<rparr>" sock
      for raw_name raw_room]
  by (auto simp add: join_def Let_def unique_usernames_def split: sum.splits)

lemma other_handlers_users:
  "users (fst (chat_message sock data clk s)) = users s"
  "users (fst (private_message sock data clk s)) = users s"
  "users (fst (get_users sock s)) = users s"
  "users (fst (get_rooms sock s)) = users s"
  by (auto simp add: chat_message_def private_message_def get_users_def get_rooms_def Let_def
      split: sum.splits option.splits prod.splits)

lemma typing_users: "typing sock data s = Inr (s1, out) \<Longrightarrow> users s1 = users s"
  by (auto simp add: typing_def split: sum.splits option.splits)

lemma disconnect_keeps_unique:
  "unique_usernames s \<Longrightarrow> unique_usernames (fst (disconnect sock clk s))"
  by (auto simp add: disconnect_def Let_def unique_usernames_def delete_keeps_unique
      split: option.splits)

lemma only_change_room_breaks_uniqueness:
  assumes "\<not> is_change_room e" and "step e s = Inr (s1, out)" and "unique_usernames s"
  shows "unique_usernames s1"
proof (cases e)
  case (Join sock data clk)
  with assms(2) have "s1 = fst (join sock data clk s)" by simp
  with assms(3) show ?thesis by (simp add: join_keeps_unique)
next
  case (ChatMessage sock data clk)
  with assms(2) have "s1 = fst (chat_message sock data clk s)" by simp
  with assms(3) show ?thesis by (simp add: unique_usernames_def other_handlers_users)
next
  case (PrivateMessage sock data clk)
  with assms(2) have "s1 = fst (private_message sock data clk s)" by simp
  with assms(3) show ?thesis by (simp add: unique_usernames_def other_handlers_users)
next
  case (Typing sock data)
  with assms(2) have "users s1 = users s" by (simp add: typing_users)
  with assms(3) show ?thesis by (simp add: unique_usernames_def)
next
  case (ChangeRoom sock data clk)
  with assms(1) show ?thesis by simp
next
  case (Disconnect sock clk)
  with assms(2) have "s1 = fst (disconnect sock clk s)" by simp
  with assms(3) show ?thesis by (simp add: disconnect_keeps_unique)
next
  case (GetUsers sock)
  with assms(2) have "s1 = fst (get_users sock s)" by simp
  with assms(3) show ?thesis by (simp add: unique_usernames_def other_handlers_users)
next
  case (GetRooms sock)
  with assms(2) have "s1 = fst (get_rooms sock s)" by simp
  with assms(3) show ?thesis by (simp add: unique_usernames_def other_handlers_users)
qed

subsection \<open>One entry per connection\<close>

text \<open>
  The registry is a \<open>Map\<close>: in every state the server reaches, no socket id has two
  entries.
\<close>

lemma join_keeps_keys:
  "distinct (map fst (users s)) \<Longrightarrow> distinct (map fst (users (fst (join sock data clk s))))"
  by (auto simp add: join_def Let_def distinct_update split: sum.splits)

lemma change_room_keeps_keys:
  "distinct (map fst (users s)) \<Longrightarrow>
     distinct (map fst (users (fst (change_room sock data clk s))))"
  by (auto simp add: change_room_def Let_def distinct_update split: sum.splits option.splits)

lemma disconnect_keeps_keys:
  "distinct (map fst (users s)) \<Longrightarrow> distinct (map fst (users (fst (disconnect sock clk s))))"
  by (simp add: disconnect_users distinct_delete)

lemma step_keeps_keys:
  assumes "step e s = Inr (s1, out)" and "distinct (map fst (users s))"
  shows "distinct (map fst (users s1))"
proof (cases e)
  case (Join sock data clk)
  with assms(1) have "s1 = fst (join sock data clk s)" by simp
  with assms(2) show ?thesis by (simp add: join_keeps_keys)
next
  case (ChatMessage sock data clk)
  with assms(1) have "s1 = fst (chat_message sock data clk s)" by simp
  with assms(2) show ?thesis by (simp add: other_handlers_users)
next
  case (PrivateMessage sock data clk)
  with assms(1) have "s1 = fst (private_message sock data clk s)" by simp
  with assms(2) show ?thesis by (simp add: other_handlers_users)
next
  case (Typing sock data)
  with assms(1) have "users s1 = users s" by (simp add: typing_users)
  with assms(2) show ?thesis by simp
next
  case (ChangeRoom sock data clk)
  with assms(1) have "s1 = fst (change_room sock data clk s)" by simp
  with assms(2) show ?thesis by (simp add: change_room_keeps_keys)
next
  case (Disconnect sock clk)
  with assms(1) have "s1 = fst (disconnect sock clk s)" by simp
  with assms(2) show ?thesis by (simp add: disconnect_keeps_keys)
next
  case (GetUsers sock)
  with assms(1) have "s1 = fst (get_users sock s)" by simp
  with assms(2) show ?thesis by (simp add: other_handlers_users)
next
  case (GetRooms sock)
  with assms(1) have "s1 = fst (get_rooms sock s)" by simp
  with assms(2) show ?thesis by (simp add: other_handlers_users)
qed

lemma run_keeps_keys:
  "run evs s = Inr (s1, out) \<Longrightarrow> distinct (map fst (users s)) \<Longrightarrow> distinct (map fst (users s1))"
proof (induction evs arbitrary: s out)
  case Nil
  then show ?case by simp
next
  case (Cons e evs)
  from Cons.prems(1) obtain s' out' out'' where st: "step e s = Inr (s', out')"
    and rest: "run evs s' = Inr (s1, out'')"
    by (auto split: sum.splits prod.splits)
  from Cons.IH [OF rest step_keeps_keys [OF st Cons.prems(2)]] show ?case .
qed

lemma reachable_one_entry_per_connection:
  "run evs init = Inr (s, out) \<Longrightarrow> distinct (map fst (users s))"
  using run_keeps_keys [of evs init s out] by (simp add: init_def)

end
